theory Spec2Isabelle
  imports Main "HOL-Library.Multiset" "HOL-Library.Sublist"
begin

section \<open>Dates\<close>

text \<open>
  A JavaScript \<^verbatim>\<open>Date\<close> is its time value: the milliseconds since the epoch, in UTC.
  The local-time accessors (\<^verbatim>\<open>getHours\<close>, \<^verbatim>\<open>setHours\<close>, ...) read and write the fields
  of that instant in the zone of the browser. The zone is a parameter \<open>tz\<close>: the minutes
  that local time is ahead of UTC (\<open>-300\<close> for UTC-5), constant over the schedule (no
  daylight-saving switch inside it).
\<close>

type_synonym date = int

definition msPerMinute :: int where "msPerMinute = 60000"
definition msPerHour :: int where "msPerHour = 3600000"
definition msPerDay :: int where "msPerDay = 86400000"

definition localMs :: "int \<Rightarrow> date \<Rightarrow> int" where
  "localMs tz t = t + tz * msPerMinute"

definition localDay :: "int \<Rightarrow> date \<Rightarrow> int" where
  \<comment> \<open>the local calendar day of the instant, counted in days since the epoch\<close>
  "localDay tz t = localMs tz t div msPerDay"

definition getHours :: "int \<Rightarrow> date \<Rightarrow> int" where
  "getHours tz t = (localMs tz t div msPerHour) mod 24"

definition getMinutes :: "int \<Rightarrow> date \<Rightarrow> int" where
  "getMinutes tz t = (localMs tz t div msPerMinute) mod 60"

definition setHours :: "int \<Rightarrow> date \<Rightarrow> int \<Rightarrow> int \<Rightarrow> int \<Rightarrow> int \<Rightarrow> date" where
  \<comment> \<open>\<^verbatim>\<open>d.setHours(h, m, s, ms)\<close>: same local day, time of day replaced\<close>
  "setHours tz t h m s ms =
     localDay tz t * msPerDay + h * msPerHour + m * msPerMinute + s * 1000 + ms
       - tz * msPerMinute"

definition setMinutes :: "int \<Rightarrow> date \<Rightarrow> int \<Rightarrow> date" where
  \<comment> \<open>\<^verbatim>\<open>d.setMinutes(m)\<close>: the minute field replaced, overflow carried into the hour and day\<close>
  "setMinutes tz t m = t + (m - getMinutes tz t) * msPerMinute"

definition addOneDay :: "date \<Rightarrow> date" where
  \<comment> \<open>\<^verbatim>\<open>d.setDate(d.getDate() + 1)\<close>: the next calendar day, same time of day\<close>
  "addOneDay t = t + msPerDay"

definition newDate :: "int \<Rightarrow> date" where
  \<comment> \<open>\<^verbatim>\<open>new Date("YYYY-MM-DD")\<close>: a date-only string is read as midnight UTC of that day;
      the argument is the day's number since the epoch\<close>
  "newDate d = d * msPerDay"

section \<open>Manual slot allocation (uploader page)\<close>

text \<open>
  The fields of \<^verbatim>\<open>SchedulerSettings\<close> the allocator reads. A time of day \<^verbatim>\<open>"HH:MM"\<close> is
  kept as the pair of numbers that \<^verbatim>\<open>split(':').map(Number)\<close> yields.
\<close>

record CrossPostSchedulerSettings =
  startDate :: int
  interval :: int
  startTime :: "int \<times> int"
  endTime :: "int \<times> int"
  checkInPlaceId :: string
  smartScheduleEnabled :: bool

datatype postType = Image | Video
datatype captionMode = demo | filename

text \<open>A \<^verbatim>\<open>File\<close> is represented by its name, the only field the scheduler reads.\<close>

record SchedulerSettings = CrossPostSchedulerSettings +
  files :: "string list"
  postType :: postType
  demoCaption :: string
  captionMode :: captionMode

definition advanceClock :: "int \<Rightarrow> 'a CrossPostSchedulerSettings_scheme \<Rightarrow> date \<Rightarrow> date" where
  \<comment> \<open>the three statements after \<^verbatim>\<open>scheduleTimes.push\<close> in the manual loop\<close>
  "advanceClock tz cfg scheduleTime =
     (let (startH, startM) = startTime cfg;
          (endH, endM) = endTime cfg;
          t1 = setMinutes tz scheduleTime (getMinutes tz scheduleTime + interval cfg)
      in if getHours tz t1 > endH \<or> (getHours tz t1 = endH \<and> getMinutes tz t1 > endM)
         then setHours tz (addOneDay t1) startH startM 0 0
         else t1)"

fun manualLoop :: "int \<Rightarrow> 'a CrossPostSchedulerSettings_scheme \<Rightarrow> date \<Rightarrow> nat \<Rightarrow> date list" where
  "manualLoop tz cfg scheduleTime 0 = []"
| "manualLoop tz cfg scheduleTime (Suc k) =
     scheduleTime # manualLoop tz cfg (advanceClock tz cfg scheduleTime) k"

definition manualSchedule :: "int \<Rightarrow> 'a CrossPostSchedulerSettings_scheme \<Rightarrow> nat \<Rightarrow> date list" where
  "manualSchedule tz cfg n =
     (let (startH, startM) = startTime cfg
      in manualLoop tz cfg (setHours tz (newDate (startDate cfg)) startH startM 0 0) n)"

section \<open>Smart slot allocation (uploader page)\<close>

definition fetchPageInsights :: "'page \<Rightarrow> int list" where
  "fetchPageInsights page =
     [100, 80, 70, 60, 50, 60, 80, 120, 150, 200, 250, 300,
      320, 310, 280, 260, 300, 350, 450, 500, 520, 480, 400, 250]"

definition hoursWithFollowers :: "int list \<Rightarrow> (int \<times> int) list" where
  \<comment> \<open>\<^verbatim>\<open>insights.map((followers, hour) => ({ hour, followers }))\<close>, then the stable sort
      by descending followers\<close>
  "hoursWithFollowers insights =
     sort_key (\<lambda>(hour, followers). - followers) (zip (map int [0..<length insights]) insights)"

text \<open>
  The loop of \<^verbatim>\<open>getSmartSchedule\<close>. \<open>rnd i\<close> is \<^verbatim>\<open>Math.floor(Math.random() * 60)\<close> and
  \<open>clk i\<close> is \<^verbatim>\<open>Date.now()\<close> in iteration \<open>i\<close>. Each iteration yields the candidate
  \<^verbatim>\<open>postDate\<close> as built by \<^verbatim>\<open>setHours\<close>, paired with the date pushed after the
  lead-time check.
\<close>

fun smartLoop ::
  "int \<Rightarrow> (int \<times> int) list \<Rightarrow> (nat \<Rightarrow> int) \<Rightarrow> (nat \<Rightarrow> date) \<Rightarrow> date \<Rightarrow> nat \<Rightarrow> nat
     \<Rightarrow> (date \<times> date) list" where
  "smartLoop tz hs rnd clk currentDate i 0 = []"
| "smartLoop tz hs rnd clk currentDate i (Suc k) =
     (let bestHourData = hs ! (i mod 5);
          currentDate' = (if i > 0 \<and> i mod 3 = 0 then addOneDay currentDate else currentDate);
          postDate = setHours tz currentDate' (fst bestHourData) (rnd i) 0 0;
          pushed = (if postDate < clk i + 600000 then addOneDay postDate else postDate)
      in (postDate, pushed) # smartLoop tz hs rnd clk currentDate' (Suc i) k)"

definition smartStep ::
  "int \<Rightarrow> (int \<times> int) list \<Rightarrow> (nat \<Rightarrow> int) \<Rightarrow> (nat \<Rightarrow> date) \<Rightarrow> date \<Rightarrow> nat \<Rightarrow> date \<times> date" where
  \<comment> \<open>iteration \<open>j\<close> of the loop in closed form, \<open>base\<close> being the initial \<^verbatim>\<open>currentDate\<close>;
      lemma \<open>smartLoop_nth\<close> proves it equal to the loop's \<open>j\<close>-th element\<close>
  "smartStep tz hs rnd clk base j =
     (let c = setHours tz (base + int (j div 3) * msPerDay) (fst (hs ! (j mod 5))) (rnd j) 0 0
      in (c, if c < clk j + 600000 then addOneDay c else c))"

definition smartCandidates ::
  "int \<Rightarrow> 'page \<Rightarrow> date \<Rightarrow> (nat \<Rightarrow> int) \<Rightarrow> (nat \<Rightarrow> date) \<Rightarrow> nat \<Rightarrow> (date \<times> date) list" where
  \<comment> \<open>\<open>now0\<close> is the \<^verbatim>\<open>new Date()\<close> that initialises \<^verbatim>\<open>currentDate\<close>\<close>
  "smartCandidates tz page now0 rnd clk numberOfPosts =
     smartLoop tz (hoursWithFollowers (fetchPageInsights page)) rnd clk (addOneDay now0) 0
       numberOfPosts"

definition getSmartSchedule ::
  "int \<Rightarrow> 'page \<Rightarrow> date \<Rightarrow> (nat \<Rightarrow> int) \<Rightarrow> (nat \<Rightarrow> date) \<Rightarrow> nat \<Rightarrow> date list" where
  "getSmartSchedule tz page now0 rnd clk numberOfPosts =
     sort (map snd (smartCandidates tz page now0 rnd clk numberOfPosts))"


section \<open>Shared state of the two scheduling pages\<close>

datatype status = success | error | info

text \<open>
  A log entry without its \<^verbatim>\<open>timestamp\<close> (the wall-clock string of the moment of
  logging). \<open>subject\<close> is the field \<^verbatim>\<open>file\<close> of the uploader page and \<^verbatim>\<open>post\<close> of the
  cross-post page.
\<close>

record SchedulingLogEntry =
  subject :: string
  status :: status
  message :: string

datatype 'a promise = Fulfilled 'a | Rejected string

text \<open>
  The parsed body of a Graph API response. \<open>error_message\<close> is \<open>None\<close> when the body has
  no \<^verbatim>\<open>error\<close>, and otherwise the text that a template literal prints for
  \<^verbatim>\<open>data.error.message\<close> (\<^verbatim>\<open>undefined\<close> for an error object without a message);
  \<open>response_id\<close> is \<^verbatim>\<open>data.id\<close>.
\<close>

record GraphResponse =
  error_message :: "string option"
  response_id :: "string option"

record FBPage =
  page_id :: string
  page_name :: string
  access_token :: string

text \<open>
  What the user does while the handler is suspended in an \<^verbatim>\<open>await\<close>: a click on the
  start/stop button, or on the pause/resume control (\<^verbatim>\<open>setIsPaused\<close>).
\<close>

datatype action = ClickStartStop | SetPaused bool

text \<open>
  The world outside the handler. Suspension points are numbered in the order the
  handler passes them (field \<open>awaits\<close> of the state); everything the world supplies at
  a suspension point is a function of that number.
\<close>

record env =
  timezone :: int
  userActions :: "nat \<Rightarrow> action list"
  clock :: "nat \<Rightarrow> date"
  toLocaleString :: "date \<Rightarrow> string"
  random :: "nat \<Rightarrow> int"
  genError :: "string option"
  aiCaption :: "nat \<Rightarrow> string"
  imageBlob :: "nat \<Rightarrow> bool"
  fetchJson :: "nat \<Rightarrow> GraphResponse promise"
  setItemOk :: "nat \<Rightarrow> bool"

text \<open>
  The React state and refs of a page. \<open>isPaused\<close> is the state and the ref
  \<^verbatim>\<open>isPausedRef\<close> that an effect keeps equal to it; \<open>cancelled\<close> is
  \<^verbatim>\<open>schedulerCancelToken.current.cancelled\<close>; the log has its most recent entry first.
  Two observation fields are not in the source: \<open>uploadCalls\<close> lists the items
  handed to the upload function and \<open>logouts\<close> counts the calls of \<^verbatim>\<open>handleLogout\<close>.
\<close>

record run_state =
  isScheduling :: bool
  isPaused :: bool
  cancelled :: bool
  schedulingLog :: "SchedulingLogEntry list"
  schedulingProgress :: "nat \<times> nat"
  notifications :: "(string \<times> status) list"
  awaits :: nat
  uploadCalls :: "string list"
  logouts :: nat

definition addLog ::
  "string \<Rightarrow> status \<Rightarrow> string \<Rightarrow> 'a run_state_scheme \<Rightarrow> 'a run_state_scheme" where
  "addLog f st msg s =
     s\<lparr>schedulingLog := \<lparr>subject = f, status = st, message = msg\<rparr> # schedulingLog s\<rparr>"

definition addNotification ::
  "string \<Rightarrow> status \<Rightarrow> 'a run_state_scheme \<Rightarrow> 'a run_state_scheme" where
  "addNotification msg st s = s\<lparr>notifications := (msg, st) # notifications s\<rparr>"

definition setIsScheduling :: "bool \<Rightarrow> 'a run_state_scheme \<Rightarrow> 'a run_state_scheme" where
  "setIsScheduling b s = s\<lparr>isScheduling := b\<rparr>"

definition handleLogout :: "'a run_state_scheme \<Rightarrow> 'a run_state_scheme" where
  \<comment> \<open>the stored token and page list, which the handler never reads, are not part of the state\<close>
  "handleLogout s =
     addNotification ''You have been logged out.'' info (s\<lparr>logouts := Suc (logouts s)\<rparr>)"

definition requestStop :: "string \<Rightarrow> 'a run_state_scheme \<Rightarrow> 'a run_state_scheme" where
  \<comment> \<open>the first branch of \<^verbatim>\<open>handleSchedulingProcess\<close>, taken when \<^verbatim>\<open>isScheduling\<close> holds\<close>
  "requestStop msg s = addLog [] info msg (s\<lparr>cancelled := True\<rparr>)"

definition stopMessage :: string where
  "stopMessage = ''Stopping scheduling process...''"

fun perform :: "string \<Rightarrow> action \<Rightarrow> 'a run_state_scheme \<Rightarrow> 'a run_state_scheme" where
  \<comment> \<open>between the start and the end of a run every render has \<^verbatim>\<open>isScheduling\<close> true, so a
      click on start/stop runs the first branch of the handler\<close>
  "perform msg ClickStartStop s = requestStop msg s"
| "perform msg (SetPaused b) s = s\<lparr>isPaused := b\<rparr>"

definition suspend :: "string \<Rightarrow> env \<Rightarrow> 'a run_state_scheme \<Rightarrow> 'a run_state_scheme" where
  \<comment> \<open>one \<^verbatim>\<open>await\<close>: the user's actions of that moment run, then the handler resumes\<close>
  "suspend msg e s =
     (foldl (\<lambda>s' a. perform msg a s') s (userActions e (awaits s)))\<lparr>awaits := Suc (awaits s)\<rparr>"

definition toLowerCase :: "string \<Rightarrow> string" where
  \<comment> \<open>on the ASCII letters; other characters are left as they are\<close>
  "toLowerCase str =
     map (\<lambda>c. case map_of (zip ''ABCDEFGHIJKLMNOPQRSTUVWXYZ'' ''abcdefghijklmnopqrstuvwxyz'') c of
                 None \<Rightarrow> c | Some d \<Rightarrow> d) str"

fun includes_str :: "string \<Rightarrow> string \<Rightarrow> bool" where
  "includes_str [] sub = (sub = [])"
| "includes_str (c # cs) sub = (prefix sub (c # cs) \<or> includes_str cs sub)"

definition isAuthError :: "string \<Rightarrow> bool" where
  "isAuthError msg =
     (let message = toLowerCase msg
      in includes_str message ''session'' \<or> includes_str message ''token'' \<or> includes_str message ''oauth'')"

function showNat :: "nat \<Rightarrow> string" where
  "showNat n =
     (if n < 10 then [''0123456789'' ! n] else showNat (n div 10) @ [''0123456789'' ! (n mod 10)])"
  by pat_completeness auto
termination
  by (relation "measure (\<lambda>n. n)") auto

declare showNat.simps [simp del]

definition showId :: "string option \<Rightarrow> string" where
  \<comment> \<open>a template literal prints a missing field as \<^verbatim>\<open>undefined\<close>\<close>
  "showId x = (case x of None \<Rightarrow> ''undefined'' | Some v \<Rightarrow> v)"


section \<open>The uploader page\<close>

definition quoteChar :: char where "quoteChar = CHR 0x22"
definition aposChar :: char where "aposChar = CHR 0x27"

text \<open>
  \<^verbatim>\<open>uploadPost\<close>, in the two steps its comments name. The caption service catches its
  own failures and always returns a caption; \<^verbatim>\<open>fetch\<close> and \<^verbatim>\<open>response.json()\<close> are one
  suspension point, whose outcome is \<open>fetchJson\<close>: rejected (network, parse) or a
  response body.
\<close>

definition uploadMedia ::
  "env \<Rightarrow> string \<Rightarrow> 'a run_state_scheme \<Rightarrow> GraphResponse promise \<times> 'a run_state_scheme" where
  \<comment> \<open>the caption and step 1: upload media without publishing\<close>
  "uploadMedia e file sc =
     (let s1 = addLog file info ''Generating AI caption...'' sc;
          caption = aiCaption e (awaits s1);
          s2 = suspend stopMessage e s1;
          s3 = addLog file info
                 (''Caption ready: '' @ [quoteChar] @ take 50 caption @ ''...'' @ [quoteChar]) s2;
          s4 = addLog file info ''Uploading media file to Facebook...'' s3;
          mediaUploadData = fetchJson e (awaits s4);
          s5 = suspend stopMessage e s4
      in case mediaUploadData of
           Rejected msg \<Rightarrow> (Rejected msg, s5)
         | Fulfilled r \<Rightarrow>
            (case error_message r of
               Some m \<Rightarrow> (Rejected (''Media upload failed: '' @ m), s5)
             | None \<Rightarrow>
                (if response_id r = None \<or> response_id r = Some []
                 then (Rejected ''Media uploaded, but did not receive a media ID from Facebook.'',
                       s5)
                 else (Fulfilled r, s5))))"

definition createFeedPost ::
  "env \<Rightarrow> SchedulerSettings \<Rightarrow> string \<Rightarrow> date option \<Rightarrow> GraphResponse \<Rightarrow> 'a run_state_scheme
     \<Rightarrow> unit promise \<times> 'a run_state_scheme" where
  \<comment> \<open>step 2: create the feed post with the media and place ID\<close>
  "createFeedPost e cfg file scheduleTime r s5 =
     (let s6 = addLog file info
                 (''Media uploaded successfully. ID: '' @ showId (response_id r)
                    @ ''. Now creating post...'') s5;
          s7 = (if checkInPlaceId cfg \<noteq> []
                then addLog file info
                       (''Attaching place with ID: '' @ checkInPlaceId cfg @ ''.'') s6
                else s6);
          s8 = (case scheduleTime of
                  Some t \<Rightarrow> addLog file info (''Scheduling post for '' @ toLocaleString e t) s7
                | None \<Rightarrow> addLog file info ''Publishing post immediately...'' s7);
          postResponseData = fetchJson e (awaits s8);
          s9 = suspend stopMessage e s8
      in case postResponseData of
           Rejected msg \<Rightarrow> (Rejected msg, s9)
         | Fulfilled r2 \<Rightarrow>
            (case error_message r2 of
               Some m \<Rightarrow> (Rejected (''Post creation failed: '' @ m), s9)
             | None \<Rightarrow>
                (Fulfilled (),
                 addLog file success
                   ((if scheduleTime \<noteq> None
                     then ''Scheduled successfully! Post ID: ''
                     else ''Posted successfully! Post ID: '')
                    @ showId (response_id r2)) s9)))"

definition uploadPost ::
  "env \<Rightarrow> FBPage option \<Rightarrow> SchedulerSettings \<Rightarrow> string \<Rightarrow> date option \<Rightarrow> 'a run_state_scheme
     \<Rightarrow> unit promise \<times> 'a run_state_scheme" where
  "uploadPost e activePage cfg file scheduleTime s0 =
     (let sc = s0\<lparr>uploadCalls := uploadCalls s0 @ [file]\<rparr>
      in case activePage of
           None \<Rightarrow> (Rejected ''No active page selected.'', sc)
         | Some page \<Rightarrow>
            (case uploadMedia e file sc of
               (Rejected msg, s5) \<Rightarrow> (Rejected msg, s5)
             | (Fulfilled r, s5) \<Rightarrow> createFeedPost e cfg file scheduleTime r s5))"

text \<open>
  The pause loop of the uploader page:
  \<^verbatim>\<open>while (isPausedRef.current) { if (cancelled) break; await sleep(1000); }\<close>.
  It need not end, so the result is an option: \<open>None\<close> when the loop runs forever.
\<close>

partial_function (option) pauseWait :: "env \<Rightarrow> 'a run_state_scheme \<Rightarrow> 'a run_state_scheme option" where
  "pauseWait e s =
     (if isPaused s
      then (if cancelled s then Some s else pauseWait e (suspend stopMessage e s))
      else Some s)"

declare pauseWait.simps [code]

text \<open>
  One pass of the loop body of the uploader page after the pause loop: the progress
  update, the lead-time adjustment of the slot and the awaited call of \<^verbatim>\<open>uploadPost\<close>.
\<close>

definition attemptItem ::
  "env \<Rightarrow> FBPage option \<Rightarrow> SchedulerSettings \<Rightarrow> date list \<Rightarrow> nat \<Rightarrow> 'a run_state_scheme
     \<Rightarrow> unit promise \<times> 'a run_state_scheme" where
  "attemptItem e activePage cfg scheduleTimes i s1 =
     (let currentFile = files cfg ! i;
          s2 = s1\<lparr>schedulingProgress := (i + 1, length (files cfg))\<rparr>;
          scheduleTime = scheduleTimes ! i;
          adjust = scheduleTime < clock e (awaits s2) + 600000;
          scheduleTime' = (if adjust then addOneDay scheduleTime else scheduleTime);
          s3 = (if adjust
                then addLog currentFile info
                       (''Time '' @ toLocaleString e scheduleTime
                          @ '' is in the past. Auto-adjusted to ''
                          @ toLocaleString e scheduleTime') s2
                else s2)
      in uploadPost e activePage cfg currentFile (Some scheduleTime') s3)"

text \<open>The item loop of the uploader page, from index \<open>i\<close>; what follows the loop is in the handler.\<close>

function runLoop ::
  "env \<Rightarrow> FBPage option \<Rightarrow> SchedulerSettings \<Rightarrow> date list \<Rightarrow> nat \<Rightarrow> 'a run_state_scheme
     \<Rightarrow> 'a run_state_scheme option" where
  "runLoop e activePage cfg scheduleTimes i s =
     (if i < length (files cfg) then
        (if cancelled s
         then Some (addNotification ''Scheduling process cancelled.'' info
                      (addLog [] info ''Scheduling cancelled by user.'' s))
         else
          (case pauseWait e s of
             None \<Rightarrow> None
           | Some s1 \<Rightarrow>
              (case attemptItem e activePage cfg scheduleTimes i s1 of
                 (Fulfilled u, s4) \<Rightarrow> runLoop e activePage cfg scheduleTimes (i + 1) s4
               | (Rejected msg, s4) \<Rightarrow>
                  (let s5 = addLog (files cfg ! i) error (''Failed: '' @ msg) s4
                   in if isAuthError msg
                      then Some (handleLogout
                             (addNotification
                                ''Facebook token expired during operation. Please log in again.''
                                error s5))
                      else runLoop e activePage cfg scheduleTimes (i + 1) s5))))
      else Some s)"
  by pat_completeness auto
termination
  by (relation "measure (\<lambda>(e, activePage, cfg, scheduleTimes, i, s). length (files cfg) - i)") auto

declare runLoop.simps [simp del]

text \<open>
  The body of the \<^verbatim>\<open>try\<close> block of the handler. The statements of the block that can
  throw are the two calls of \<^verbatim>\<open>split\<close> in the manual branch, on a \<^verbatim>\<open>startTime\<close> or
  \<^verbatim>\<open>endTime\<close> that is not a string; \<open>genError\<close> is that exception, if any. The smart
  branch awaits \<^verbatim>\<open>getSmartSchedule\<close>, in which nothing throws: it reads a constant table
  and computes on dates.
\<close>

definition generateSchedule ::
  "env \<Rightarrow> FBPage \<Rightarrow> SchedulerSettings \<Rightarrow> 'a run_state_scheme
     \<Rightarrow> date list promise \<times> 'a run_state_scheme" where
  "generateSchedule e page cfg s =
     (if smartScheduleEnabled cfg then
        (let s1 = addLog [] info ''Using Smart Schedule. Generating optimal post times...'' s;
             s2 = addLog [] info
                    (''Analyzing page engagement... (mock data). This requires '' @ [aposChar]
                       @ ''read_insights'' @ [aposChar] @ '' permission.'') s1;
             s3 = suspend stopMessage e s2;
             scheduleTimes =
               getSmartSchedule (timezone e) page (clock e (awaits s3)) (random e)
                 (\<lambda>i. clock e (awaits s3)) (length (files cfg))
         in (Fulfilled scheduleTimes,
             addLog [] info
               (''Smart Schedule generated '' @ showNat (length scheduleTimes)
                  @ '' post times.'') s3))
      else
        (let s1 = addLog [] info
                    (''Using Manual Schedule for '' @ showNat (length (files cfg)) @ '' files...'') s
         in case genError e of
              Some msg \<Rightarrow> (Rejected msg, s1)
            | None \<Rightarrow> (Fulfilled (manualSchedule (timezone e) cfg (length (files cfg))), s1)))"

definition handleSchedulingProcess ::
  "env \<Rightarrow> FBPage option \<Rightarrow> SchedulerSettings \<Rightarrow> 'a run_state_scheme
     \<Rightarrow> 'a run_state_scheme option" where
  "handleSchedulingProcess e activePage cfg s =
     (if isScheduling s then Some (requestStop stopMessage s)
      else if files cfg = [] then
        Some (addNotification ''No files selected to schedule.'' error
                (addLog [] error ''No files selected to schedule.'' s))
      else
        (case activePage of
           None \<Rightarrow>
             Some (addNotification ''No Facebook Page selected.'' error
                     (addLog [] error ''No Facebook Page selected.'' s))
         | Some page \<Rightarrow>
            (let s1 = (setIsScheduling True s)
                        \<lparr>isPaused := False, cancelled := False, schedulingLog := [],
                         schedulingProgress := (0, length (files cfg))\<rparr>
             in case generateSchedule e page cfg s1 of
                  (Rejected msg, s2) \<Rightarrow>
                    Some (setIsScheduling False
                            (addNotification (''Could not generate schedule: '' @ msg) error
                               (addLog [] error (''Schedule generation failed: '' @ msg) s2)))
                | (Fulfilled scheduleTimes, s2) \<Rightarrow>
                   (case runLoop e activePage cfg scheduleTimes 0 s2 of
                      None \<Rightarrow> None
                    | Some s3 \<Rightarrow>
                       Some ((setIsScheduling False
                                (addNotification ''Bulk scheduling process has finished.'' success
                                   (addLog [] info ''Scheduling complete.'' s3)))
                               \<lparr>isPaused := False\<rparr>)))))"

text \<open>
  The state of the item loop, started with item \<open>i\<close> in state \<open>s\<close>, at the top of the
  iteration that follows \<open>n\<close> more items: the first \<open>n\<close> iterations of \<open>runLoop\<close>. The
  result is \<open>None\<close> when the loop does not get there: the list ends, the run is
  cancelled, an item fails with an authentication error, or a pause does not end.
\<close>

fun afterItems ::
  "env \<Rightarrow> FBPage option \<Rightarrow> SchedulerSettings \<Rightarrow> date list \<Rightarrow> nat \<Rightarrow> 'a run_state_scheme
     \<Rightarrow> nat \<Rightarrow> 'a run_state_scheme option" where
  "afterItems e activePage cfg scheduleTimes i s 0 = Some s"
| "afterItems e activePage cfg scheduleTimes i s (Suc n) =
     (if i < length (files cfg) \<and> \<not> cancelled s then
        (case pauseWait e s of
           None \<Rightarrow> None
         | Some s1 \<Rightarrow>
            (case attemptItem e activePage cfg scheduleTimes i s1 of
               (Fulfilled u, s4) \<Rightarrow> afterItems e activePage cfg scheduleTimes (i + 1) s4 n
             | (Rejected msg, s4) \<Rightarrow>
                (if isAuthError msg then None
                 else afterItems e activePage cfg scheduleTimes (i + 1)
                        (addLog (files cfg ! i) error (''Failed: '' @ msg) s4) n)))
      else None)"

definition authFailure :: "'a promise \<Rightarrow> bool" where
  \<comment> \<open>the outcome of an upload on which the loop logs the user out\<close>
  "authFailure r = (case r of Rejected msg \<Rightarrow> isAuthError msg | Fulfilled u \<Rightarrow> False)"


section \<open>The cross-post page\<close>

record ManagedPost =
  post_id :: string
  post_message :: "string option"
  full_picture :: "string option"

text \<open>
  The page state adds the history of cross-posted pairs. A JavaScript \<^verbatim>\<open>Set\<close> keeps
  insertion order, so it is a list without duplicates; \<open>storedHistory\<close> is the array
  saved under \<^verbatim>\<open>CROSPOST_HISTORY_KEY\<close> in \<^verbatim>\<open>localStorage\<close> (\<open>None\<close>: no entry).
\<close>

record cross_state = run_state +
  crossPostHistory :: "string list"
  storedHistory :: "string list option"

definition historyKey :: "ManagedPost \<Rightarrow> FBPage \<Rightarrow> string" where
  "historyKey post destinationPage = post_id post @ ''|'' @ page_id destinationPage"

definition setAdd :: "string \<Rightarrow> string list \<Rightarrow> string list" where
  \<comment> \<open>\<^verbatim>\<open>new Set(prev).add(key)\<close>\<close>
  "setAdd k xs = (if k \<in> set xs then xs else xs @ [k])"

definition crossStopMessage :: string where
  "crossStopMessage = ''Stopping process...''"

text \<open>
  \<^verbatim>\<open>uploadCrossPost\<close>. \<^verbatim>\<open>manipulateImage\<close> resolves to a blob or to \<^verbatim>\<open>null\<close> and the caption
  service to a caption, neither rejects; \<open>setItemOk\<close> tells whether
  \<^verbatim>\<open>localStorage.setItem\<close> returns or throws (the exception is caught and printed).
\<close>

definition uploadCrossPost ::
  "env \<Rightarrow> FBPage option \<Rightarrow> 'b CrossPostSchedulerSettings_scheme \<Rightarrow> ManagedPost \<Rightarrow> date option
     \<Rightarrow> 'a cross_state_scheme \<Rightarrow> unit promise \<times> 'a cross_state_scheme" where
  "uploadCrossPost e destinationPage cfg post scheduleTime s0 =
     (let sc = s0\<lparr>uploadCalls := uploadCalls s0 @ [post_id post]\<rparr>
      in case destinationPage of
           None \<Rightarrow> (Rejected ''No destination page selected.'', sc)
         | Some dest \<Rightarrow>
            (let s1 = addLog (post_id post) info ''Enhancing post...'' sc;
                 blob = imageBlob e (awaits s1);
                 newCaption = aiCaption e (awaits s1);
                 s2 = suspend crossStopMessage e s1;
                 s3 = addLog (post_id post) info
                        (''Caption ready: '' @ [quoteChar] @ take 50 newCaption @ ''...''
                           @ [quoteChar]) s2;
                 s4 = (if blob then addLog (post_id post) info ''Uploading new styled image...'' s3
                       else addLog (post_id post) info
                              ''Image manipulation failed. Using original image URL.'' s3);
                 mediaUploadData = fetchJson e (awaits s4);
                 s5 = suspend crossStopMessage e s4
             in case mediaUploadData of
                  Rejected msg \<Rightarrow> (Rejected msg, s5)
                | Fulfilled r \<Rightarrow>
                   (case error_message r of
                      Some m \<Rightarrow> (Rejected (''Media upload failed: '' @ m), s5)
                    | None \<Rightarrow>
                       (let s6 = addLog (post_id post) info
                                   (''Media uploaded (ID: '' @ showId (response_id r)
                                      @ ''). Creating post...'') s5;
                            s7 = (case scheduleTime of
                                    Some t \<Rightarrow> addLog (post_id post) info
                                               (''Scheduling for '' @ toLocaleString e t) s6
                                  | None \<Rightarrow> s6);
                            postResponseData = fetchJson e (awaits s7);
                            s8 = suspend crossStopMessage e s7
                        in case postResponseData of
                             Rejected msg \<Rightarrow> (Rejected msg, s8)
                           | Fulfilled r2 \<Rightarrow>
                              (case error_message r2 of
                                 Some m \<Rightarrow> (Rejected (''Post creation failed: '' @ m), s8)
                               | None \<Rightarrow>
                                  (let newHistorySet = setAdd (historyKey post dest) (crossPostHistory s8);
                                       s9 = s8\<lparr>crossPostHistory := newHistorySet,
                                               storedHistory :=
                                                 (if setItemOk e (awaits s8) then Some newHistorySet
                                                  else storedHistory s8)\<rparr>
                                   in (Fulfilled (),
                                       addLog (post_id post) success
                                         (if scheduleTime \<noteq> None
                                          then ''Scheduled successfully! ID: '' @ showId (response_id r2)
                                          else ''Posted successfully!'') s9)))))))"

text \<open>
  The pause loop of the cross-post page: \<^verbatim>\<open>while (isPausedRef.current) await sleep(1000);\<close>.
\<close>

partial_function (option) crossPauseWait ::
  "env \<Rightarrow> 'a run_state_scheme \<Rightarrow> 'a run_state_scheme option" where
  "crossPauseWait e s =
     (if isPaused s then crossPauseWait e (suspend crossStopMessage e s) else Some s)"

declare crossPauseWait.simps [code]

text \<open>
  The item loop of the cross-post page. \<open>history\<close> is the \<^verbatim>\<open>crossPostHistory\<close> that the
  callback holds: the set of the render in which the run was started. The keys that
  \<^verbatim>\<open>uploadCrossPost\<close> records during the run go to the state of the page (field
  \<open>crossPostHistory\<close>) and to \<^verbatim>\<open>localStorage\<close>; the loop does not read them back.
\<close>

function crossLoop ::
  "env \<Rightarrow> FBPage \<Rightarrow> 'b CrossPostSchedulerSettings_scheme \<Rightarrow> string list \<Rightarrow> ManagedPost list
     \<Rightarrow> nat \<Rightarrow> date \<Rightarrow> 'a cross_state_scheme \<Rightarrow> 'a cross_state_scheme option" where
  "crossLoop e dest cfg history postsToSchedule i scheduleTime s =
     (if i < length postsToSchedule then
        (if cancelled s then Some (addLog [] info ''Scheduling cancelled by user.'' s)
         else
          (case crossPauseWait e s of
             None \<Rightarrow> None
           | Some s1 \<Rightarrow>
              (let currentPost = postsToSchedule ! i;
                   s2 = s1\<lparr>schedulingProgress := (i + 1, length postsToSchedule)\<rparr>
               in if historyKey currentPost dest \<in> set history
                  then crossLoop e dest cfg history postsToSchedule (i + 1) scheduleTime
                         (addLog (post_id currentPost) info
                            ''Skipped: This post has already been cross-posted to the destination page.''
                            s2)
                  else
                   (let finalScheduleTime =
                          (if scheduleTime < clock e (awaits s2) + 600000
                           then addOneDay scheduleTime else scheduleTime);
                        next = advanceClock (timezone e) cfg scheduleTime
                    in case uploadCrossPost e (Some dest) cfg currentPost (Some finalScheduleTime) s2 of
                         (Fulfilled u, s3) \<Rightarrow>
                           crossLoop e dest cfg history postsToSchedule (i + 1) next s3
                       | (Rejected msg, s3) \<Rightarrow>
                          (let s4 = addLog (post_id currentPost) error (''Failed: '' @ msg) s3
                           in if isAuthError msg
                              then Some (handleLogout
                                     (addNotification
                                        ''Facebook token expired during operation. Please log in again.''
                                        error s4))
                              else crossLoop e dest cfg history postsToSchedule (i + 1) next s4)))))
      else Some s)"
  by pat_completeness auto
termination
  by (relation "measure (\<lambda>(e, dest, cfg, history, postsToSchedule, i, scheduleTime, s).
                  length postsToSchedule - i)") auto

declare crossLoop.simps [simp del]

definition handleCrossPostProcess ::
  "env \<Rightarrow> ManagedPost list \<Rightarrow> string list \<Rightarrow> FBPage option \<Rightarrow> FBPage option
     \<Rightarrow> 'b CrossPostSchedulerSettings_scheme \<Rightarrow> 'a cross_state_scheme
     \<Rightarrow> 'a cross_state_scheme option" where
  \<comment> \<open>\<^verbatim>\<open>handleSchedulingProcess\<close> of the cross-post page\<close>
  "handleCrossPostProcess e sourcePosts selectedPostIds destinationPage sourcePage cfg s =
     (if isScheduling s then Some (requestStop crossStopMessage s)
      else
       (let postsToSchedule = filter (\<lambda>p. post_id p \<in> set selectedPostIds) sourcePosts;
            invalid = addNotification
                        ''Please select posts, a valid source, and a different destination page.''
                        error s
        in case (destinationPage, sourcePage) of
             (Some dest, Some src) \<Rightarrow>
               (if postsToSchedule = [] \<or> page_id dest = page_id src then Some invalid
                else
                 (let s1 = (setIsScheduling True s)
                             \<lparr>isPaused := False, cancelled := False, schedulingLog := [],
                              schedulingProgress := (0, length postsToSchedule)\<rparr>;
                      (startH, startM) = startTime cfg;
                      scheduleTime = setHours (timezone e) (newDate (startDate cfg)) startH startM 0 0
                  in case crossLoop e dest cfg (crossPostHistory s) postsToSchedule 0 scheduleTime s1 of
                       None \<Rightarrow> None
                     | Some s2 \<Rightarrow>
                        Some (setIsScheduling False
                                (addNotification ''Cross-posting process has finished.'' success s2))))
           | _ \<Rightarrow> Some invalid))"


section \<open>Relations between the states of a run\<close>

text \<open>
  \<open>quiet s s'\<close>: between \<open>s\<close> and \<open>s'\<close> only the user has acted. The pause flag may have
  changed, the cancellation flag may have been set, entries of the stop button (no
  subject, status info) may have been logged and suspension points passed.
\<close>

definition quiet :: "'a run_state_scheme \<Rightarrow> 'a run_state_scheme \<Rightarrow> bool" where
  "quiet s s' \<longleftrightarrow>
     (\<exists>p c l k. s' = s\<lparr>isPaused := p, cancelled := c, schedulingLog := l @ schedulingLog s,
                       awaits := awaits s + k\<rparr> \<and>
        (cancelled s \<longrightarrow> c) \<and> (\<forall>x\<in>set l. subject x = [] \<and> status x = info))"

text \<open>\<open>logAdds P s s'\<close>: the log of \<open>s'\<close> is the log of \<open>s\<close> with entries satisfying \<open>P\<close> on top.\<close>

definition logAdds ::
  "(SchedulingLogEntry \<Rightarrow> bool) \<Rightarrow> 'a run_state_scheme \<Rightarrow> 'b run_state_scheme \<Rightarrow> bool" where
  "logAdds P s s' \<longleftrightarrow> (\<exists>l. schedulingLog s' = l @ schedulingLog s \<and> (\<forall>x\<in>set l. P x))"

text \<open>
  The pause and cancellation flags as the user's actions alone determine them: both are
  cleared when a run starts, at suspension point \<open>t0\<close>, and the run itself does not
  write them before it ends. \<open>pausesEnd\<close> says that the user never leaves the run
  paused for ever: after every moment of the run there is one at which the run is not
  paused or is cancelled.
\<close>

fun applyAction :: "action \<Rightarrow> bool \<times> bool \<Rightarrow> bool \<times> bool" where
  "applyAction ClickStartStop (p, c) = (p, True)"
| "applyAction (SetPaused b) (p, c) = (b, c)"

definition flagsAt :: "env \<Rightarrow> nat \<Rightarrow> nat \<Rightarrow> bool \<times> bool" where
  "flagsAt e t0 t =
     foldl (\<lambda>f a. applyAction a f) (False, False) (concat (map (userActions e) [t0..<t]))"

definition inSync :: "env \<Rightarrow> nat \<Rightarrow> 'a run_state_scheme \<Rightarrow> bool" where
  "inSync e t0 s \<longleftrightarrow> t0 \<le> awaits s \<and> (isPaused s, cancelled s) = flagsAt e t0 (awaits s)"

definition pausesEnd :: "env \<Rightarrow> nat \<Rightarrow> bool" where
  "pausesEnd e t0 \<longleftrightarrow> (\<forall>t\<ge>t0. \<exists>t'\<ge>t. case flagsAt e t0 t' of (p, c) \<Rightarrow> \<not> p \<or> c)"

section \<open>Example inputs\<close>

text \<open>
  Five files from day 20000 of the epoch (2024-10-04), every 60 minutes between 09:00
  and 22:00; the same settings with two files and with one.
\<close>

definition fiveFiles :: SchedulerSettings where
  "fiveFiles =
     \<lparr>startDate = 20000, interval = 60, startTime = (9, 0), endTime = (22, 0),
      checkInPlaceId = [], smartScheduleEnabled = False,
      files = [''a'', ''b'', ''c'', ''d'', ''e''],
      postType = Image, demoCaption = [], captionMode = demo\<rparr>"

definition twoFiles :: SchedulerSettings where
  "twoFiles = fiveFiles\<lparr>files := [''a'', ''b'']\<rparr>"

definition oneFile :: SchedulerSettings where
  "oneFile = fiveFiles\<lparr>files := [''a'']\<rparr>"

definition crossSettings :: CrossPostSchedulerSettings where
  "crossSettings =
     \<lparr>startDate = 20000, interval = 60, startTime = (9, 0), endTime = (22, 0),
      checkInPlaceId = [], smartScheduleEnabled = False\<rparr>"

definition pageA :: FBPage where
  "pageA = \<lparr>page_id = ''A'', page_name = ''Page A'', access_token = ''secret''\<rparr>"

definition pageB :: FBPage where
  "pageB = \<lparr>page_id = ''B'', page_name = ''Page B'', access_token = ''secret''\<rparr>"

definition post1 :: ManagedPost where
  "post1 = \<lparr>post_id = ''p1'', post_message = Some ''hello'', full_picture = Some ''url''\<rparr>"

text \<open>A page on which nothing has happened yet, and the same page while a run is in progress.\<close>

definition idle :: run_state where
  "idle =
     \<lparr>isScheduling = False, isPaused = False, cancelled = False, schedulingLog = [],
      schedulingProgress = (0, 0), notifications = [], awaits = 0, uploadCalls = [],
      logouts = 0\<rparr>"

definition running :: run_state where
  "running = idle\<lparr>isScheduling := True\<rparr>"

definition idleCross :: cross_state where
  "idleCross =
     \<lparr>isScheduling = False, isPaused = False, cancelled = False, schedulingLog = [],
      schedulingProgress = (0, 0), notifications = [], awaits = 0, uploadCalls = [],
      logouts = 0, crossPostHistory = [], storedHistory = None\<rparr>"

text \<open>
  A world in which the user does nothing and every request succeeds, and variants of
  it: the user clicks stop during the first suspension; the user pauses during the
  first suspension and clicks stop during the fourth; every request is answered with
  an expired-session error; the first request is answered with another error; the
  start time of the settings is not a string, so that the generation of the schedule
  throws.
\<close>

definition quietEnv :: env where
  "quietEnv =
     \<lparr>timezone = 0, userActions = (\<lambda>t. []), clock = (\<lambda>t. 0), toLocaleString = (\<lambda>d. ''slot''),
      random = (\<lambda>i. 0), genError = None, aiCaption = (\<lambda>t. ''caption''), imageBlob = (\<lambda>t. True),
      fetchJson = (\<lambda>t. Fulfilled \<lparr>error_message = None, response_id = Some ''1''\<rparr>),
      setItemOk = (\<lambda>t. True)\<rparr>"

definition stopDuringUpload :: env where
  "stopDuringUpload = quietEnv\<lparr>userActions := (\<lambda>t. if t = 0 then [ClickStartStop] else [])\<rparr>"

definition pauseThenStop :: env where
  "pauseThenStop =
     quietEnv\<lparr>userActions := (\<lambda>t. if t = 0 then [SetPaused True]
                                   else if t = 3 then [ClickStartStop] else [])\<rparr>"

definition expiredSession :: env where
  "expiredSession =
     quietEnv\<lparr>fetchJson :=
       (\<lambda>t. Fulfilled \<lparr>error_message = Some ''Error validating access token: Session has expired'',
                         response_id = None\<rparr>)\<rparr>"

definition brokenUpload :: env where
  "brokenUpload =
     quietEnv\<lparr>fetchJson :=
       (\<lambda>t. if t = 1 then Fulfilled \<lparr>error_message = Some ''(#324) Requires upload file'',
                                       response_id = None\<rparr>
             else Fulfilled \<lparr>error_message = None, response_id = Some ''1''\<rparr>)\<rparr>"

definition failingGeneration :: env where
  "failingGeneration =
     quietEnv\<lparr>genError := Some ''schedulerSettings.startTime.split is not a function''\<rparr>"

section \<open>Properties of the date operations\<close>

lemma div_block: "0 \<le> r \<Longrightarrow> r < c \<Longrightarrow> (q * c + r) div c = (q::int)"
  by (simp add: div_pos_pos_trivial)

lemma mod_block: "0 \<le> r \<Longrightarrow> r < c \<Longrightarrow> (q * c + r) mod c = (r::int)"
  by (simp add: mod_pos_pos_trivial)

lemma localMs_setHours: "localMs tz (setHours tz t h m s ms) = localDay tz t * msPerDay + h * msPerHour + m * msPerMinute + s * 1000 + ms"
  by (simp add: localMs_def setHours_def)

lemma getHours_setHours:
  assumes "0 \<le> h" "h < 24" "0 \<le> m" "m < 60"
  shows "getHours tz (setHours tz t h m 0 0) = h"
proof -
  have "localMs tz (setHours tz t h m 0 0) = (localDay tz t * 24 + h) * msPerHour + m * msPerMinute"
    by (simp add: localMs_setHours msPerDay_def msPerHour_def algebra_simps)
  moreover have "0 \<le> m * msPerMinute" "m * msPerMinute < msPerHour"
    using assms by (simp_all add: msPerMinute_def msPerHour_def)
  ultimately have "localMs tz (setHours tz t h m 0 0) div msPerHour = localDay tz t * 24 + h"
    by (simp add: div_block)
  then show ?thesis using assms by (simp add: getHours_def mod_block)
qed

lemma getMinutes_setHours:
  assumes "0 \<le> m" "m < 60"
  shows "getMinutes tz (setHours tz t h m 0 0) = m"
proof -
  have "localMs tz (setHours tz t h m 0 0) = (localDay tz t * 1440 + h * 60 + m) * msPerMinute + 0"
    by (simp add: localMs_setHours msPerDay_def msPerHour_def msPerMinute_def algebra_simps)
  then have "localMs tz (setHours tz t h m 0 0) div msPerMinute = (localDay tz t * 24 + h) * 60 + m"
    by (simp add: msPerMinute_def)
  then have "getMinutes tz (setHours tz t h m 0 0) = ((localDay tz t * 24 + h) * 60 + m) mod 60"
    by (simp only: getMinutes_def)
  also have "\<dots> = m" using assms mod_block [of m 60 "localDay tz t * 24 + h"] by simp
  finally show ?thesis .
qed

lemma localDay_setHours:
  assumes "0 \<le> h" "h < 24" "0 \<le> m" "m < 60"
  shows "localDay tz (setHours tz t h m 0 0) = localDay tz t"
proof -
  have "0 \<le> h * msPerHour + m * msPerMinute" "h * msPerHour + m * msPerMinute < msPerDay"
    using assms by (simp_all add: msPerMinute_def msPerHour_def msPerDay_def)
  moreover have "localMs tz (setHours tz t h m 0 0) = localDay tz t * msPerDay + (h * msPerHour + m * msPerMinute)"
    by (simp add: localMs_setHours)
  ultimately show ?thesis
    unfolding localDay_def[of tz "setHours tz t h m 0 0"] by (simp add: div_block)
qed

lemma localDay_addOneDay: "localDay tz (addOneDay t) = localDay tz t + 1"
  unfolding localDay_def localMs_def addOneDay_def msPerDay_def by simp

lemma getHours_addOneDay: "getHours tz (addOneDay t) = getHours tz t"
proof -
  have "localMs tz (addOneDay t) = localMs tz t + 24 * msPerHour"
    by (simp add: localMs_def addOneDay_def msPerDay_def msPerHour_def)
  moreover have "(localMs tz t + 24 * msPerHour) div msPerHour = localMs tz t div msPerHour + 24"
    using div_mult_self1 [of msPerHour "localMs tz t" 24] by (simp add: msPerHour_def)
  ultimately show ?thesis by (simp only: getHours_def) simp
qed

lemma length_manualLoop: "length (manualLoop tz cfg t n) = n"
  by (induction n arbitrary: t) simp_all

lemma length_smartLoop: "length (smartLoop tz hs rnd clk cur i k) = k"
  by (induction k arbitrary: cur i) (simp_all add: Let_def)


lemma hoursWithFollowers_insights:
  "hoursWithFollowers (fetchPageInsights page) =
     [(20, 520), (19, 500), (21, 480), (18, 450), (22, 400), (17, 350),
      (12, 320), (13, 310), (11, 300), (16, 300), (14, 280), (15, 260),
      (10, 250), (23, 250), (9, 200), (8, 150), (7, 120), (0, 100), (1, 80),
      (6, 80), (2, 70), (3, 60), (5, 60), (4, 50)]"
  unfolding hoursWithFollowers_def fetchPageInsights_def by code_simp

lemma top5_hours:
  "fst (hoursWithFollowers (fetchPageInsights page) ! (i mod 5)) \<in> {18, 19, 20, 21, 22}"
proof -
  have "i mod 5 < 5" by simp
  then consider "i mod 5 = 0" | "i mod 5 = 1" | "i mod 5 = 2" | "i mod 5 = 3" | "i mod 5 = 4"
    by linarith
  then show ?thesis
    by cases (simp_all add: hoursWithFollowers_insights)
qed

lemma localDay_add_days: "localDay tz (t + k * msPerDay) = localDay tz t + k"
  unfolding localDay_def localMs_def
  using div_mult_self1 [of msPerDay "t + tz * msPerMinute" k]
  by (simp add: msPerDay_def algebra_simps)

lemma smartLoop_nth:
  "currentDate = base + int ((i - 1) div 3) * msPerDay \<Longrightarrow> j < k \<Longrightarrow>
   smartLoop tz hs rnd clk currentDate i k ! j = smartStep tz hs rnd clk base (i + j)"
proof (induction k arbitrary: currentDate i j)
  case 0
  then show ?case by simp
next
  case (Suc k)
  let ?cur = "if i > 0 \<and> i mod 3 = 0 then addOneDay currentDate else currentDate"
  have cur: "?cur = base + int (i div 3) * msPerDay"
  proof (cases "i > 0 \<and> i mod 3 = 0")
    case True
    then have "i div 3 = (i - 1) div 3 + 1" by presburger
    with True Suc.prems(1) show ?thesis by (simp add: addOneDay_def algebra_simps)
  next
    case False
    then have "i div 3 = (i - 1) div 3" by presburger
    with False Suc.prems(1) show ?thesis by auto
  qed
  show ?case
  proof (cases j)
    case 0
    then show ?thesis using cur by (simp add: Let_def smartStep_def)
  next
    case (Suc j')
    then have lt: "j' < k" using Suc.prems(2) by simp
    have eq: "?cur = base + int ((Suc i - 1) div 3) * msPerDay" using cur by simp
    have "smartLoop tz hs rnd clk ?cur (Suc i) k ! j' = smartStep tz hs rnd clk base (Suc i + j')"
      by (rule Suc.IH [OF eq lt])
    then show ?thesis using Suc by (simp add: Let_def)
  qed
qed

lemma smartCandidates_nth:
  "j < n \<Longrightarrow> smartCandidates tz page now0 rnd clk n ! j =
     smartStep tz (hoursWithFollowers (fetchPageInsights page)) rnd clk (addOneDay now0) j"
  unfolding smartCandidates_def
  using smartLoop_nth [of "addOneDay now0" "addOneDay now0" 0 j n] by simp


lemma before_next_local_day: "t < (localDay tz t + 1) * msPerDay - tz * msPerMinute"
proof -
  have "localMs tz t mod msPerDay < msPerDay" by (simp add: msPerDay_def)
  moreover have "localMs tz t = localDay tz t * msPerDay + localMs tz t mod msPerDay"
    by (simp add: localDay_def)
  ultimately have "localMs tz t < (localDay tz t + 1) * msPerDay"
    by (simp add: algebra_simps)
  then show ?thesis by (simp add: localMs_def)
qed

lemma setHours_lower:
  assumes "0 \<le> h" "0 \<le> m"
  shows "localDay tz t * msPerDay - tz * msPerMinute \<le> setHours tz t h m 0 0"
proof -
  have "0 \<le> h * msPerHour" "0 \<le> m * msPerMinute"
    using assms by (simp_all add: msPerHour_def msPerMinute_def)
  then show ?thesis by (simp add: setHours_def)
qed

lemma smartStep_props:
  assumes h: "0 \<le> fst (hs ! (j mod 5))" "fst (hs ! (j mod 5)) < 24"
      and m: "0 \<le> rnd j" "rnd j < 60"
      and st: "smartStep tz hs rnd clk (addOneDay now0) j = (c, p)"
  shows "getHours tz c = fst (hs ! (j mod 5))"
    and "getMinutes tz c = rnd j"
    and "localDay tz c = localDay tz now0 + 1 + int (j div 3)"
    and "p = c \<or> p = addOneDay c"
    and "clk j + 600000 \<le> now0 + msPerDay \<Longrightarrow> clk j + 600000 \<le> p"
proof -
  let ?t = "addOneDay now0 + int (j div 3) * msPerDay"
  have c: "c = setHours tz ?t (fst (hs ! (j mod 5))) (rnd j) 0 0"
    and p: "p = (if c < clk j + 600000 then addOneDay c else c)"
    using st by (auto simp add: smartStep_def Let_def)
  have day: "localDay tz ?t = localDay tz now0 + 1 + int (j div 3)"
    by (simp add: localDay_add_days localDay_addOneDay)
  show "getHours tz c = fst (hs ! (j mod 5))"
    unfolding c using h m by (rule getHours_setHours)
  show "getMinutes tz c = rnd j"
    unfolding c using m by (rule getMinutes_setHours)
  show "localDay tz c = localDay tz now0 + 1 + int (j div 3)"
    unfolding c using h m day by (simp add: localDay_setHours)
  show "p = c \<or> p = addOneDay c" using p by simp
  show "clk j + 600000 \<le> p" if clk: "clk j + 600000 \<le> now0 + msPerDay"
  proof (cases "c < clk j + 600000")
    case False
    then show ?thesis using p by simp
  next
    case True
    have "0 \<le> int (j div 3) * msPerDay" by (simp add: msPerDay_def)
    then have "(localDay tz now0 + 1) * msPerDay \<le> localDay tz ?t * msPerDay"
      unfolding day by (simp add: algebra_simps)
    moreover have "localDay tz ?t * msPerDay - tz * msPerMinute \<le> c"
      unfolding c using h(1) m(1) by (rule setHours_lower)
    moreover note before_next_local_day [of now0 tz]
    ultimately have "now0 < c" by linarith
    then show ?thesis using True p clk by (simp add: addOneDay_def)
  qed
qed

lemma top5_range:
  "0 \<le> fst (hoursWithFollowers (fetchPageInsights page) ! (i mod 5))"
  "fst (hoursWithFollowers (fetchPageInsights page) ! (i mod 5)) < 24"
  using top5_hours [of page i] by auto

section \<open>Manual allocation\<close>

lemma advanceClock_later:
  assumes "0 < interval cfg" "0 \<le> fst (startTime cfg)" "0 \<le> snd (startTime cfg)"
  shows "t < advanceClock tz cfg t"
proof -
  obtain startH startM where st: "startTime cfg = (startH, startM)" by (cases "startTime cfg")
  obtain endH endM where en: "endTime cfg = (endH, endM)" by (cases "endTime cfg")
  let ?t1 = "setMinutes tz t (getMinutes tz t + interval cfg)"
  have t1: "?t1 = t + interval cfg * msPerMinute" by (simp add: setMinutes_def)
  have "0 < interval cfg * msPerMinute" using assms(1) by (simp add: msPerMinute_def)
  then have lt: "t < ?t1" using t1 by simp
  have "?t1 < setHours tz (addOneDay ?t1) startH startM 0 0"
  proof -
    have "localDay tz (addOneDay ?t1) * msPerDay - tz * msPerMinute
            \<le> setHours tz (addOneDay ?t1) startH startM 0 0"
      using assms(2,3) st by (intro setHours_lower) simp_all
    moreover have "?t1 < (localDay tz ?t1 + 1) * msPerDay - tz * msPerMinute"
      by (rule before_next_local_day)
    ultimately show ?thesis by (simp add: localDay_addOneDay)
  qed
  with lt show ?thesis
    by (auto simp add: advanceClock_def st en Let_def)
qed

lemma manualLoop_increasing:
  assumes "0 < interval cfg" "0 \<le> fst (startTime cfg)" "0 \<le> snd (startTime cfg)"
  shows "sorted_wrt (<) (manualLoop tz cfg t n) \<and> (\<forall>x\<in>set (manualLoop tz cfg t n). t \<le> x)"
proof (induction n arbitrary: t)
  case 0
  show ?case by simp
next
  case (Suc n)
  have "t < advanceClock tz cfg t" using assms by (rule advanceClock_later)
  with Suc [of "advanceClock tz cfg t"] show ?case by fastforce
qed

lemma manualSchedule_count: "length (manualSchedule tz cfg n) = n"
  by (simp add: manualSchedule_def length_manualLoop split: prod.splits)

lemma manualSchedule_increasing:
  assumes "0 < interval cfg" "0 \<le> fst (startTime cfg)" "0 \<le> snd (startTime cfg)"
  shows "sorted_wrt (<) (manualSchedule tz cfg n)"
  using manualLoop_increasing [OF assms] by (simp add: manualSchedule_def split: prod.splits)

lemma fiveFiles_start: "setHours (-300) (newDate 20000) 9 0 0 0 = 1727964000000"
  by (simp add: setHours_def newDate_def localDay_def localMs_def msPerDay_def msPerHour_def
      msPerMinute_def)

lemma fiveFiles_loop:
  "manualLoop (-300) fiveFiles 1727964000000 (Suc (Suc (Suc (Suc (Suc 0))))) =
     [1727964000000, 1727967600000, 1727971200000, 1727974800000, 1727978400000]"
  by (simp add: fiveFiles_def advanceClock_def setHours_def setMinutes_def
      getHours_def getMinutes_def localDay_def localMs_def addOneDay_def
      msPerDay_def msPerHour_def msPerMinute_def)

lemma fiveFiles_schedule:
  "manualSchedule (-300) fiveFiles (length (files fiveFiles)) =
     [1727964000000, 1727967600000, 1727971200000, 1727974800000, 1727978400000]"
proof -
  have "length (files fiveFiles) = Suc (Suc (Suc (Suc (Suc 0))))" by (simp add: fiveFiles_def)
  moreover have "startTime fiveFiles = (9, 0)" "startDate fiveFiles = 20000"
    by (simp_all add: fiveFiles_def)
  ultimately have "manualSchedule (-300) fiveFiles (length (files fiveFiles)) =
      manualLoop (-300) fiveFiles (setHours (-300) (newDate 20000) 9 0 0 0)
        (Suc (Suc (Suc (Suc (Suc 0)))))"
    by (simp only: manualSchedule_def Let_def split_conv)
  then show ?thesis by (simp only: fiveFiles_start fiveFiles_loop)
qed

lemma fiveFiles_local:
  "map (\<lambda>t. (localDay (-300) t, getHours (-300) t, getMinutes (-300) t))
     [1727964000000, 1727967600000, 1727971200000, 1727974800000, 1727978400000] =
   [(19999, 9, 0), (19999, 10, 0), (19999, 11, 0), (19999, 12, 0), (19999, 13, 0)]"
  by (simp add: getHours_def getMinutes_def localDay_def localMs_def
      msPerDay_def msPerHour_def msPerMinute_def)

text \<open>
  Claim C1. With five files, an interval of 60 minutes, a window from 09:00 to 22:00 and
  start date \<open>D\<close>, the five slots should lie between 09:00 and 22:00 on days not before
  \<open>D\<close>. The allocator reads the start date with \<^verbatim>\<open>new Date(startDate)\<close>, which is midnight
  UTC of \<open>D\<close>, and then sets the local hours: in a zone behind UTC that instant is still
  the evening of the day before \<open>D\<close>, and the slots start there. In the zone UTC-5, with
  \<open>D\<close> the day 20000, the five slots are 09:00, 10:00, 11:00, 12:00 and 13:00 local
  time of day 19999.
\<close>

theorem manualSchedule_west_of_utc:
  "map (\<lambda>t. (localDay (-300) t, getHours (-300) t, getMinutes (-300) t))
     (manualSchedule (-300) fiveFiles (length (files fiveFiles))) =
   [(19999, 9, 0), (19999, 10, 0), (19999, 11, 0), (19999, 12, 0), (19999, 13, 0)] \<and>
   startDate fiveFiles = 20000"
proof -
  have "startDate fiveFiles = 20000" by (simp add: fiveFiles_def)
  then show ?thesis by (simp only: fiveFiles_schedule fiveFiles_local)
qed

section \<open>Smart allocation\<close>

lemma hoursWithFollowers_ranking:
  "mset (hoursWithFollowers insights) = mset (zip (map int [0..<length insights]) insights)"
  "sorted_wrt (\<lambda>a b. snd b \<le> snd a) (hoursWithFollowers insights)"
proof -
  show "mset (hoursWithFollowers insights) = mset (zip (map int [0..<length insights]) insights)"
    by (simp add: hoursWithFollowers_def)
  have "sorted (map (\<lambda>(hour, followers). - followers) (hoursWithFollowers insights))"
    unfolding hoursWithFollowers_def by (rule sorted_sort_key)
  then show "sorted_wrt (\<lambda>a b. snd b \<le> snd a) (hoursWithFollowers insights)"
    by (simp add: sorted_map case_prod_beta)
qed

lemma top5_nth:
  "fst (hoursWithFollowers (fetchPageInsights page) ! (i mod 5)) = [20, 19, 21, 18, 22] ! (i mod 5)"
proof -
  have "i mod 5 < 5" by simp
  then consider "i mod 5 = 0" | "i mod 5 = 1" | "i mod 5 = 2" | "i mod 5 = 3" | "i mod 5 = 4"
    by linarith
  then show ?thesis
    by cases (simp_all add: hoursWithFollowers_insights)
qed

text \<open>
  Claim C2. For every count \<open>n\<close> and all random minutes in \<open>0..59\<close>, the smart allocator
  returns \<open>n\<close> timestamps in ascending order, which are the pushed dates of the loop. The
  ranking is the list of the 24 hours with their weights in the order of descending
  weight, and its first five hours are 20, 19, 21, 18 and 22. In iteration \<open>i\<close> the
  candidate has the hour of rank \<open>i mod 5\<close> among these five and the drawn minute, and
  lies on the day \<open>1 + i div 3\<close> after today: tomorrow at first, and one day later than
  the candidate before it exactly when \<open>i > 0\<close> and \<open>i mod 3 = 0\<close>. The pushed date is
  the candidate plus one day if the candidate is earlier than ten minutes after the
  clock reading of the iteration, and the candidate itself otherwise; in both cases it
  is not earlier than ten minutes after that reading, and so is every timestamp
  returned. The clock readings of the loop are taken less than 23 h 50 min after the
  reading that initialises the running date.
\<close>

theorem getSmartSchedule_slots:
  assumes rnd: "\<forall>i<n. 0 \<le> rnd i \<and> rnd i < 60"
      and clk: "\<forall>i<n. clk i + 600000 \<le> now0 + msPerDay"
  shows "length (getSmartSchedule tz page now0 rnd clk n) = n \<and>
         sorted (getSmartSchedule tz page now0 rnd clk n) \<and>
         mset (getSmartSchedule tz page now0 rnd clk n) =
           mset (map snd (smartCandidates tz page now0 rnd clk n)) \<and>
         mset (hoursWithFollowers (fetchPageInsights page)) =
           mset (zip (map int [0..<24]) (fetchPageInsights page)) \<and>
         sorted_wrt (\<lambda>a b. snd b \<le> snd a) (hoursWithFollowers (fetchPageInsights page)) \<and>
         map fst (take 5 (hoursWithFollowers (fetchPageInsights page))) = [20, 19, 21, 18, 22] \<and>
         (\<forall>i<n. case smartCandidates tz page now0 rnd clk n ! i of (c, p) \<Rightarrow>
            getHours tz c = fst (hoursWithFollowers (fetchPageInsights page) ! (i mod 5)) \<and>
            getHours tz c = [20, 19, 21, 18, 22] ! (i mod 5) \<and>
            getMinutes tz c = rnd i \<and>
            localDay tz c = localDay tz now0 + 1 + int (i div 3) \<and>
            (0 < i \<longrightarrow>
               localDay tz c =
                 localDay tz (fst (smartCandidates tz page now0 rnd clk n ! (i - 1)))
                   + (if i mod 3 = 0 then 1 else 0)) \<and>
            p = (if c < clk i + 600000 then addOneDay c else c) \<and>
            clk i + 600000 \<le> p) \<and>
         (\<forall>t\<in>set (getSmartSchedule tz page now0 rnd clk n). \<exists>i<n. clk i + 600000 \<le> t)"
proof -
  let ?cands = "smartCandidates tz page now0 rnd clk n"
  let ?hs = "hoursWithFollowers (fetchPageInsights page)"
  have len: "length ?cands = n"
    by (simp add: smartCandidates_def length_smartLoop)
  have step: "smartStep tz ?hs rnd clk (addOneDay now0) i = ?cands ! i" if "i < n" for i
    using smartCandidates_nth [OF that, of tz page now0 rnd clk] by simp
  have props: "getHours tz c = fst (?hs ! (i mod 5))" "getMinutes tz c = rnd i"
    "localDay tz c = localDay tz now0 + 1 + int (i div 3)"
    "p = (if c < clk i + 600000 then addOneDay c else c)" "clk i + 600000 \<le> p"
    if i: "i < n" and cp: "?cands ! i = (c, p)" for i c p
  proof -
    have st: "smartStep tz ?hs rnd clk (addOneDay now0) i = (c, p)" using step [OF i] cp by simp
    have m: "0 \<le> rnd i" "rnd i < 60" using rnd i by auto
    have k: "clk i + 600000 \<le> now0 + msPerDay" using clk i by auto
    note sp = smartStep_props [OF top5_range m st]
    show "getHours tz c = fst (?hs ! (i mod 5))" using sp(1) .
    show "getMinutes tz c = rnd i" using sp(2) .
    show "localDay tz c = localDay tz now0 + 1 + int (i div 3)" using sp(3) .
    show "p = (if c < clk i + 600000 then addOneDay c else c)"
      using st by (auto simp add: smartStep_def Let_def)
    show "clk i + 600000 \<le> p" using sp(5) [OF k] .
  qed
  have each: "case ?cands ! i of (c, p) \<Rightarrow>
            getHours tz c = fst (?hs ! (i mod 5)) \<and>
            getHours tz c = [20, 19, 21, 18, 22] ! (i mod 5) \<and>
            getMinutes tz c = rnd i \<and>
            localDay tz c = localDay tz now0 + 1 + int (i div 3) \<and>
            (0 < i \<longrightarrow>
               localDay tz c = localDay tz (fst (?cands ! (i - 1))) + (if i mod 3 = 0 then 1 else 0)) \<and>
            p = (if c < clk i + 600000 then addOneDay c else c) \<and>
            clk i + 600000 \<le> p" if i: "i < n" for i
  proof -
    obtain c p where cp: "?cands ! i = (c, p)" by (cases "?cands ! i")
    note pr = props [OF i cp]
    have prev: "localDay tz c = localDay tz (fst (?cands ! (i - 1))) + (if i mod 3 = 0 then 1 else 0)"
      if pos: "0 < i"
    proof -
      obtain c' p' where cp': "?cands ! (i - 1) = (c', p')" by (cases "?cands ! (i - 1)")
      have "i - 1 < n" using i by simp
      then have "localDay tz c' = localDay tz now0 + 1 + int ((i - 1) div 3)"
        using props(3) cp' by blast
      moreover have "int (i div 3) = int ((i - 1) div 3) + (if i mod 3 = 0 then 1 else 0)"
        using pos by (simp split: if_splits) presburger
      ultimately show ?thesis using pr(3) cp' by simp
    qed
    show ?thesis
      unfolding cp using pr prev top5_nth [of page i] by simp
  qed
  have late: "\<exists>i<n. clk i + 600000 \<le> t" if "t \<in> set (getSmartSchedule tz page now0 rnd clk n)" for t
  proof -
    have "t \<in> set (map snd ?cands)" using that by (simp add: getSmartSchedule_def)
    then obtain i where i: "i < n" and t: "t = snd (?cands ! i)"
      using len by (auto simp add: in_set_conv_nth)
    obtain c p where cp: "?cands ! i = (c, p)" by (cases "?cands ! i")
    then have "clk i + 600000 \<le> t" using props(5) [OF i cp] t by simp
    then show ?thesis using i by blast
  qed
  have "length (fetchPageInsights page) = 24" by (simp add: fetchPageInsights_def)
  then have rank: "mset ?hs = mset (zip (map int [0..<24]) (fetchPageInsights page))"
    using hoursWithFollowers_ranking(1) [of "fetchPageInsights page"] by simp
  have top: "map fst (take 5 ?hs) = [20, 19, 21, 18, 22]"
    by (simp add: hoursWithFollowers_insights)
  show ?thesis
    using len each late rank top hoursWithFollowers_ranking(2) [of "fetchPageInsights page"]
    by (simp add: getSmartSchedule_def)
qed

text \<open>
  Four posts in the zone UTC+5:30: four timestamps in ascending order, and the fourth
  candidate has the hour 18, the fourth of the ranking.
\<close>

theorem getSmartSchedule_slots_witness:
  "length (getSmartSchedule 330 () 1728000000000 (\<lambda>i. 7 * int i) (\<lambda>i. 1728000000000 + int i) 4) = 4 \<and>
   sorted (getSmartSchedule 330 () 1728000000000 (\<lambda>i. 7 * int i) (\<lambda>i. 1728000000000 + int i) 4) \<and>
   getHours 330
     (fst (smartCandidates 330 () 1728000000000 (\<lambda>i. 7 * int i) (\<lambda>i. 1728000000000 + int i) 4 ! 3))
     = 18"
proof -
  let ?rnd = "\<lambda>i. 7 * int i" and ?clk = "\<lambda>i. 1728000000000 + int i"
  let ?cands = "smartCandidates 330 () 1728000000000 ?rnd ?clk 4"
  have r: "\<forall>i<4. (0::int) \<le> ?rnd i \<and> ?rnd i < 60" by auto
  have c: "\<forall>i<(4::nat). ?clk i + 600000 \<le> 1728000000000 + msPerDay"
    by (auto simp add: msPerDay_def)
  note th = getSmartSchedule_slots [OF r c, of 330 "()"]
  have "(3::nat) < 4" by simp
  then have "case ?cands ! 3 of (c, p) \<Rightarrow> getHours 330 c = [20, 19, 21, 18, 22] ! (3 mod 5)"
    using th [THEN conjunct2, THEN conjunct2, THEN conjunct2, THEN conjunct2, THEN conjunct2,
        THEN conjunct2, THEN conjunct1, rule_format, of 3]
    by (simp only: split_beta) simp
  then have hour: "getHours 330 (fst (?cands ! 3)) = 18" by (simp add: split_beta)
  show ?thesis
    using th [THEN conjunct1] th [THEN conjunct2, THEN conjunct1] hour by (intro conjI)
qed

text \<open>
  Claim C10. The engagement weights do not depend on the page and have 24 entries; the
  five best hours are 20, 19, 21, 18 and 22, and the hour of every candidate slot is one
  of them, for every page and every count.
\<close>

theorem smart_hours_fixed:
  "fetchPageInsights page = fetchPageInsights page' \<and>
   length (fetchPageInsights page) = 24 \<and>
   map fst (take 5 (hoursWithFollowers (fetchPageInsights page))) = [20, 19, 21, 18, 22] \<and>
   ((\<forall>i<n. 0 \<le> rnd i \<and> rnd i < 60) \<longrightarrow>
    (\<forall>i<n. getHours tz (fst (smartCandidates tz page now0 rnd clk n ! i)) \<in> {18, 19, 20, 21, 22}))"
proof -
  have "getHours tz (fst (smartCandidates tz page now0 rnd clk n ! i)) \<in> {18, 19, 20, 21, 22}"
    if rnd: "\<forall>i<n. 0 \<le> rnd i \<and> rnd i < 60" and i: "i < n" for i
  proof -
    obtain c p where st: "smartStep tz (hoursWithFollowers (fetchPageInsights page)) rnd clk
                     (addOneDay now0) i = (c, p)"
      by (cases "smartStep tz (hoursWithFollowers (fetchPageInsights page)) rnd clk (addOneDay now0) i")
    have m: "0 \<le> rnd i" "rnd i < 60" using rnd i by auto
    have "getHours tz c = fst (hoursWithFollowers (fetchPageInsights page) ! (i mod 5))"
      using smartStep_props(1) [OF top5_range m st] .
    then show ?thesis
      using smartCandidates_nth [OF i, of tz page now0 rnd clk] st top5_hours [of page i] by simp
  qed
  moreover have "fetchPageInsights page = fetchPageInsights page'"
    by (simp add: fetchPageInsights_def)
  moreover have "length (fetchPageInsights page) = 24"
    by (simp add: fetchPageInsights_def)
  moreover have "map fst (take 5 (hoursWithFollowers (fetchPageInsights page))) = [20, 19, 21, 18, 22]"
    by (simp add: hoursWithFollowers_insights)
  ultimately show ?thesis by blast
qed

theorem smart_hours_fixed_witness:
  "getHours (-300)
     (fst (smartCandidates (-300) ''pageA'' 1728000000000 (\<lambda>i. int i) (\<lambda>i. 1728000000000) 7 ! 6))
     \<in> {18, 19, 20, 21, 22}"
proof -
  have r: "\<forall>i<7. (0::int) \<le> (\<lambda>i. int i) i \<and> (\<lambda>i. int i) i < 60" by auto
  have "\<forall>i<7. getHours (-300)
          (fst (smartCandidates (-300) ''pageA'' 1728000000000 (\<lambda>i. int i) (\<lambda>i. 1728000000000) 7 ! i))
          \<in> {18, 19, 20, 21, 22}"
    using r smart_hours_fixed [of "''pageA''" "''pageB''" 7 "\<lambda>i. int i" "-300" 1728000000000
        "\<lambda>i. 1728000000000"]
    by blast
  then show ?thesis by simp
qed

section \<open>Suspension points\<close>

lemma foldl_perform_shape:
  "\<exists>p c l. foldl (\<lambda>s' a. perform msg a s') s acts =
             s\<lparr>isPaused := p, cancelled := c, schedulingLog := l @ schedulingLog s\<rparr> \<and>
           (cancelled s \<longrightarrow> c) \<and>
           (\<forall>x\<in>set l. subject x = [] \<and> status x = info)"
proof (induction acts arbitrary: s)
  case Nil
  have "s = s\<lparr>isPaused := isPaused s, cancelled := cancelled s, schedulingLog := [] @ schedulingLog s\<rparr>"
    by simp
  then show ?case by (metis empty_iff foldl_Nil list.set(1))
next
  case (Cons a acts)
  obtain p c l where
    sh: "foldl (\<lambda>s' a. perform msg a s') (perform msg a s) acts =
           (perform msg a s)\<lparr>isPaused := p, cancelled := c,
              schedulingLog := l @ schedulingLog (perform msg a s)\<rparr>"
    and c: "cancelled (perform msg a s) \<longrightarrow> c"
    and l: "\<forall>x\<in>set l. subject x = [] \<and> status x = info"
    using Cons [of "perform msg a s"] by blast
  show ?case
  proof (cases a)
    case ClickStartStop
    let ?l = "l @ [\<lparr>subject = [], status = info, message = msg\<rparr>]"
    have "foldl (\<lambda>s' a. perform msg a s') s (a # acts) =
            s\<lparr>isPaused := p, cancelled := c, schedulingLog := ?l @ schedulingLog s\<rparr>"
      using sh ClickStartStop by (simp add: requestStop_def addLog_def)
    moreover have "cancelled s \<longrightarrow> c" using c ClickStartStop by (simp add: requestStop_def addLog_def)
    moreover have "\<forall>x\<in>set ?l. subject x = [] \<and> status x = info" using l by simp
    ultimately show ?thesis by blast
  next
    case (SetPaused b)
    have "foldl (\<lambda>s' a. perform msg a s') s (a # acts) =
            s\<lparr>isPaused := p, cancelled := c, schedulingLog := l @ schedulingLog s\<rparr>"
      using sh SetPaused by simp
    moreover have "cancelled s \<longrightarrow> c" using c SetPaused by simp
    ultimately show ?thesis using l by blast
  qed
qed

lemma suspend_shape:
  "\<exists>p c l. suspend msg e s =
             s\<lparr>isPaused := p, cancelled := c, schedulingLog := l @ schedulingLog s,
               awaits := Suc (awaits s)\<rparr> \<and>
           (cancelled s \<longrightarrow> c) \<and>
           (\<forall>x\<in>set l. subject x = [] \<and> status x = info)"
proof -
  obtain p c l where
    "foldl (\<lambda>s' a. perform msg a s') s (userActions e (awaits s)) =
       s\<lparr>isPaused := p, cancelled := c, schedulingLog := l @ schedulingLog s\<rparr>"
    "cancelled s \<longrightarrow> c" "\<forall>x\<in>set l. subject x = [] \<and> status x = info"
    using foldl_perform_shape by blast
  then show ?thesis unfolding suspend_def by auto
qed

lemma suspend_fields [simp]:
  "awaits (suspend msg e s) = Suc (awaits s)"
  "uploadCalls (suspend msg e s) = uploadCalls s"
  "logouts (suspend msg e s) = logouts s"
  "isScheduling (suspend msg e s) = isScheduling s"
  "schedulingProgress (suspend msg e s) = schedulingProgress s"
  "notifications (suspend msg e s) = notifications s"
  "run_state.more (suspend msg e s) = run_state.more s"
  using suspend_shape [of msg e s] by auto

lemma suspend_cancelled: "cancelled s \<Longrightarrow> cancelled (suspend msg e s)"
  using suspend_shape [of msg e s] by auto

lemma suspend_log:
  "\<exists>l. schedulingLog (suspend msg e s) = l @ schedulingLog s \<and>
       (\<forall>x\<in>set l. subject x = [] \<and> status x = info)"
  using suspend_shape [of msg e s] by auto

lemma suspend_history [simp]:
  "crossPostHistory (suspend msg e s) = crossPostHistory s"
  "storedHistory (suspend msg e s) = storedHistory s"
  using suspend_shape [of msg e s] by auto

lemma quiet_refl: "quiet s s"
proof -
  have "s = s\<lparr>isPaused := isPaused s, cancelled := cancelled s,
               schedulingLog := [] @ schedulingLog s, awaits := awaits s + 0\<rparr>" by simp
  then show ?thesis unfolding quiet_def by (metis empty_iff list.set(1))
qed

lemma quiet_suspend: "quiet s (suspend msg e s)"
proof -
  obtain p c l where "suspend msg e s =
             s\<lparr>isPaused := p, cancelled := c, schedulingLog := l @ schedulingLog s,
               awaits := Suc (awaits s)\<rparr>" "cancelled s \<longrightarrow> c"
           "\<forall>x\<in>set l. subject x = [] \<and> status x = info"
    using suspend_shape by blast
  moreover have "Suc (awaits s) = awaits s + 1" by simp
  ultimately show ?thesis unfolding quiet_def by metis
qed

lemma quiet_trans:
  assumes "quiet s s'" "quiet s' s''"
  shows "quiet s s''"
proof -
  obtain p c l k where 1: "s' = s\<lparr>isPaused := p, cancelled := c, schedulingLog := l @ schedulingLog s,
                       awaits := awaits s + k\<rparr>" "cancelled s \<longrightarrow> c"
     "\<forall>x\<in>set l. subject x = [] \<and> status x = info"
    using assms(1) unfolding quiet_def by blast
  obtain p' c' l' k' where 2: "s'' = s'\<lparr>isPaused := p', cancelled := c', schedulingLog := l' @ schedulingLog s',
                       awaits := awaits s' + k'\<rparr>" "cancelled s' \<longrightarrow> c'"
     "\<forall>x\<in>set l'. subject x = [] \<and> status x = info"
    using assms(2) unfolding quiet_def by blast
  have "s'' = s\<lparr>isPaused := p', cancelled := c', schedulingLog := (l' @ l) @ schedulingLog s,
                       awaits := awaits s + (k + k')\<rparr>"
    using 1(1) 2(1) by simp
  moreover have "cancelled s \<longrightarrow> c'" using 1 2 by simp
  moreover have "\<forall>x\<in>set (l' @ l). subject x = [] \<and> status x = info" using 1(3) 2(3) by auto
  ultimately show ?thesis unfolding quiet_def by blast
qed

lemma quiet_fields:
  assumes "quiet s s'"
  shows "uploadCalls s' = uploadCalls s" "logouts s' = logouts s" "isScheduling s' = isScheduling s"
    "schedulingProgress s' = schedulingProgress s"
    "notifications s' = notifications s" "run_state.more s' = run_state.more s"
    "awaits s \<le> awaits s'" "cancelled s \<Longrightarrow> cancelled s'"
    "logAdds (\<lambda>x. subject x = [] \<and> status x = info) s s'"
  using assms unfolding quiet_def logAdds_def by auto

lemma quiet_history:
  assumes "quiet s s'"
  shows "crossPostHistory s' = crossPostHistory s" "storedHistory s' = storedHistory s"
  using assms unfolding quiet_def by auto

lemma pauseWait_quiet:
  "pauseWait e s = Some s' \<Longrightarrow> quiet s s' \<and> (\<not> isPaused s' \<or> cancelled s')"
proof (induction rule: pauseWait.raw_induct [rotated 1, consumes 1])
  case (1 pw e s s')
  show ?case
  proof (cases "isPaused s \<and> \<not> cancelled s")
    case True
    then have a: "pw e (suspend stopMessage e s) = Some s'" using 1(2) by simp
    have "quiet (suspend stopMessage e s) s' \<and> (\<not> isPaused s' \<or> cancelled s')" using 1(1) [OF a] .
    then show ?thesis using quiet_trans [OF quiet_suspend] by blast
  next
    case False
    then have "s' = s" using 1(2) by (auto split: if_splits)
    then show ?thesis using False quiet_refl by auto
  qed
qed

lemma crossPauseWait_quiet:
  "crossPauseWait e s = Some s' \<Longrightarrow> quiet s s' \<and> \<not> isPaused s'"
proof (induction rule: crossPauseWait.raw_induct [rotated 1, consumes 1])
  case (1 pw e s s')
  show ?case
  proof (cases "isPaused s")
    case True
    then have a: "pw e (suspend crossStopMessage e s) = Some s'" using 1(2) by simp
    have "quiet (suspend crossStopMessage e s) s' \<and> \<not> isPaused s'" using 1(1) [OF a] .
    then show ?thesis using quiet_trans [OF quiet_suspend] by blast
  next
    case False
    then have "s' = s" using 1(2) by (auto split: if_splits)
    then show ?thesis using False quiet_refl by auto
  qed
qed

section \<open>The history of the cross-post page\<close>

lemma addLog_fields [simp]:
  "awaits (addLog f st m s) = awaits s"
  "uploadCalls (addLog f st m s) = uploadCalls s"
  "logouts (addLog f st m s) = logouts s"
  "isScheduling (addLog f st m s) = isScheduling s"
  "isPaused (addLog f st m s) = isPaused s"
  "cancelled (addLog f st m s) = cancelled s"
  "schedulingProgress (addLog f st m s) = schedulingProgress s"
  "notifications (addLog f st m s) = notifications s"
  "run_state.more (addLog f st m s) = run_state.more s"
  "schedulingLog (addLog f st m s) = \<lparr>subject = f, status = st, message = m\<rparr> # schedulingLog s"
  by (simp_all add: addLog_def)

lemma addLog_history [simp]:
  "crossPostHistory (addLog f st m s) = crossPostHistory s"
  "storedHistory (addLog f st m s) = storedHistory s"
  by (simp_all add: addLog_def)


lemma set_setAdd: "set (setAdd k xs) = insert k (set xs)"
  by (auto simp add: setAdd_def)

lemma distinct_setAdd: "distinct xs \<Longrightarrow> distinct (setAdd k xs)"
  by (simp add: setAdd_def)

text \<open>
  When the loop of the cross-post page reaches an item (the run is not cancelled and
  the pause loop has ended) whose key is in the set the handler consults, it goes on
  with the next item, at the same slot, after logging one entry of status info for the
  item: no upload call is made, nobody is logged out or notified, the history is
  untouched, and everything logged since the item was reached has status info.
\<close>

lemma crossLoop_skips_recorded:
  assumes i: "i < length posts" and nc: "\<not> cancelled s"
      and pw: "crossPauseWait e s = Some s1"
      and key: "historyKey (posts ! i) dest \<in> set history"
      and s2: "s2 = addLog (post_id (posts ! i)) info
                 ''Skipped: This post has already been cross-posted to the destination page.''
                 (s1\<lparr>schedulingProgress := (i + 1, length posts)\<rparr>)"
  shows "crossLoop e dest cfg history posts i t s = crossLoop e dest cfg history posts (i + 1) t s2 \<and>
         uploadCalls s2 = uploadCalls s \<and> logouts s2 = logouts s \<and>
         notifications s2 = notifications s \<and>
         crossPostHistory s2 = crossPostHistory s \<and> storedHistory s2 = storedHistory s \<and>
         logAdds (\<lambda>x. status x = info) s s2"
proof -
  have q: "quiet s s1" using crossPauseWait_quiet [OF pw] by simp
  have loop: "crossLoop e dest cfg history posts i t s = crossLoop e dest cfg history posts (i + 1) t s2"
    using i nc pw key s2 by (subst crossLoop.simps) (simp add: Let_def)
  have "logAdds (\<lambda>x. subject x = [] \<and> status x = info) s s1" using quiet_fields(9) [OF q] .
  then have "logAdds (\<lambda>x. status x = info) s s2"
    unfolding logAdds_def s2 by auto
  then show ?thesis
    using loop quiet_fields [OF q] quiet_history [OF q] by (simp add: s2)
qed

section \<open>What an upload preserves\<close>

lemma uploadMedia_preserves:
  assumes susp: "\<And>x. P x \<Longrightarrow> P (suspend stopMessage e x)"
      and log: "\<And>st m x. st \<noteq> error \<Longrightarrow> P x \<Longrightarrow> P (addLog file st m x)"
      and start: "P s"
  shows "P (snd (uploadMedia e file s))"
proof -
  have "P (suspend stopMessage e
            (addLog file info ''Uploading media file to Facebook...''
              (addLog file info
                 (''Caption ready: '' @ [quoteChar] @
                    take 50 (aiCaption e (awaits (addLog file info ''Generating AI caption...'' s)))
                    @ ''...'' @ [quoteChar])
                 (suspend stopMessage e (addLog file info ''Generating AI caption...'' s)))))"
    by (intro susp log start) simp_all
  then show ?thesis
    unfolding uploadMedia_def Let_def
    by (simp split: promise.splits option.splits)
qed

lemma createFeedPost_preserves:
  assumes susp: "\<And>x. P x \<Longrightarrow> P (suspend stopMessage e x)"
      and log: "\<And>st m x. st \<noteq> error \<Longrightarrow> P x \<Longrightarrow> P (addLog file st m x)"
      and start: "P s"
  shows "P (snd (createFeedPost e cfg file scheduleTime r s))"
proof -
  define s8 where "s8 =
     (case scheduleTime of
        Some t \<Rightarrow> addLog file info (''Scheduling post for '' @ toLocaleString e t)
           (if checkInPlaceId cfg \<noteq> []
            then addLog file info (''Attaching place with ID: '' @ checkInPlaceId cfg @ ''.'')
                   (addLog file info
                      (''Media uploaded successfully. ID: '' @ showId (response_id r)
                         @ ''. Now creating post...'') s)
            else addLog file info
                      (''Media uploaded successfully. ID: '' @ showId (response_id r)
                         @ ''. Now creating post...'') s)
      | None \<Rightarrow> addLog file info ''Publishing post immediately...''
           (if checkInPlaceId cfg \<noteq> []
            then addLog file info (''Attaching place with ID: '' @ checkInPlaceId cfg @ ''.'')
                   (addLog file info
                      (''Media uploaded successfully. ID: '' @ showId (response_id r)
                         @ ''. Now creating post...'') s)
            else addLog file info
                      (''Media uploaded successfully. ID: '' @ showId (response_id r)
                         @ ''. Now creating post...'') s))"
  have "P s8" unfolding s8_def using start by (auto split: option.splits intro!: log)
  then have P9: "P (suspend stopMessage e s8)" by (rule susp)
  have "createFeedPost e cfg file scheduleTime r s =
     (case fetchJson e (awaits s8) of
           Rejected msg \<Rightarrow> (Rejected msg, suspend stopMessage e s8)
         | Fulfilled r2 \<Rightarrow>
            (case error_message r2 of
               Some m \<Rightarrow> (Rejected (''Post creation failed: '' @ m), suspend stopMessage e s8)
             | None \<Rightarrow>
                (Fulfilled (),
                 addLog file success
                   ((if scheduleTime \<noteq> None
                     then ''Scheduled successfully! Post ID: ''
                     else ''Posted successfully! Post ID: '')
                    @ showId (response_id r2)) (suspend stopMessage e s8))))"
    unfolding createFeedPost_def Let_def s8_def ..
  then show ?thesis using P9
    by (auto split: promise.splits option.splits intro!: log)
qed

lemma uploadPost_preserves:
  assumes susp: "\<And>x. P x \<Longrightarrow> P (suspend stopMessage e x)"
      and log: "\<And>st m x. st \<noteq> error \<Longrightarrow> P x \<Longrightarrow> P (addLog file st m x)"
      and call: "P (s\<lparr>uploadCalls := uploadCalls s @ [file]\<rparr>)"
  shows "P (snd (uploadPost e activePage cfg file scheduleTime s))"
proof (cases activePage)
  case None
  then show ?thesis using call by (simp add: uploadPost_def)
next
  case (Some page)
  let ?sc = "s\<lparr>uploadCalls := uploadCalls s @ [file]\<rparr>"
  obtain r1 s5 where m: "uploadMedia e file ?sc = (r1, s5)" by (cases "uploadMedia e file ?sc")
  have P5: "P s5" using uploadMedia_preserves [of P e "file" "?sc", OF susp log call] m by simp
  show ?thesis
  proof (cases r1)
    case (Rejected msg)
    then show ?thesis using Some m P5 by (simp add: uploadPost_def)
  next
    case (Fulfilled r)
    then have "uploadPost e activePage cfg file scheduleTime s =
                 createFeedPost e cfg file scheduleTime r s5"
      using Some m by (simp add: uploadPost_def)
    then show ?thesis
      using createFeedPost_preserves [of P e "file" s5, OF susp log P5] by simp
  qed
qed

lemma attemptItem_preserves:
  assumes susp: "\<And>x. P x \<Longrightarrow> P (suspend stopMessage e x)"
      and log: "\<And>st m x. st \<noteq> error \<Longrightarrow> P x \<Longrightarrow> P (addLog (files cfg ! i) st m x)"
      and call: "\<And>x. P x \<Longrightarrow> P (x\<lparr>uploadCalls := uploadCalls x @ [files cfg ! i]\<rparr>)"
      and prog: "P (s\<lparr>schedulingProgress := (i + 1, length (files cfg))\<rparr>)"
  shows "P (snd (attemptItem e activePage cfg scheduleTimes i s))"
proof -
  define s3 where "s3 =
     (if scheduleTimes ! i < clock e (awaits (s\<lparr>schedulingProgress := (i + 1, length (files cfg))\<rparr>)) + 600000
      then addLog (files cfg ! i) info
             (''Time '' @ toLocaleString e (scheduleTimes ! i)
                @ '' is in the past. Auto-adjusted to ''
                @ toLocaleString e
                    (if scheduleTimes ! i < clock e (awaits (s\<lparr>schedulingProgress := (i + 1, length (files cfg))\<rparr>)) + 600000
                     then addOneDay (scheduleTimes ! i) else scheduleTimes ! i))
             (s\<lparr>schedulingProgress := (i + 1, length (files cfg))\<rparr>)
      else s\<lparr>schedulingProgress := (i + 1, length (files cfg))\<rparr>)"
  have P3: "P s3" unfolding s3_def using prog by (auto intro!: log)
  have "attemptItem e activePage cfg scheduleTimes i s =
          uploadPost e activePage cfg (files cfg ! i)
            (Some (if scheduleTimes ! i < clock e (awaits (s\<lparr>schedulingProgress := (i + 1, length (files cfg))\<rparr>)) + 600000
                   then addOneDay (scheduleTimes ! i) else scheduleTimes ! i)) s3"
    unfolding attemptItem_def Let_def s3_def ..
  then show ?thesis
    using uploadPost_preserves [of P e "files cfg ! i" s3, OF susp log call [OF P3]] by simp
qed

lemma pauseWait_preserves:
  assumes "pauseWait e s = Some s'"
      and "\<And>x. P x \<Longrightarrow> P (suspend stopMessage e x)"
      and "P s"
  shows "P s'"
  using assms
proof (induction rule: pauseWait.raw_induct [rotated 1, consumes 1])
  case (1 pw e s s')
  show ?case
  proof (cases "isPaused s \<and> \<not> cancelled s")
    case True
    then have a: "pw e (suspend stopMessage e s) = Some s'" using 1(2) by simp
    show ?thesis using 1(1) [OF a 1(3)] 1(3) 1(4) by blast
  next
    case False
    then have "s' = s" using 1(2) by (auto split: if_splits)
    then show ?thesis using 1(4) by simp
  qed
qed

section \<open>The flags follow the user\<close>

lemma foldl_perform_flags:
  "(isPaused (foldl (\<lambda>s' a. perform msg a s') s acts),
    cancelled (foldl (\<lambda>s' a. perform msg a s') s acts)) =
   foldl (\<lambda>f a. applyAction a f) (isPaused s, cancelled s) acts"
proof (induction acts arbitrary: s)
  case Nil
  show ?case by simp
next
  case (Cons a acts)
  have "(isPaused (perform msg a s), cancelled (perform msg a s)) =
          applyAction a (isPaused s, cancelled s)"
    by (cases a) (simp_all add: requestStop_def addLog_def)
  then show ?case using Cons [of "perform msg a s"] by simp
qed

lemma suspend_flags:
  "(isPaused (suspend msg e s), cancelled (suspend msg e s)) =
   foldl (\<lambda>f a. applyAction a f) (isPaused s, cancelled s) (userActions e (awaits s))"
  using foldl_perform_flags [of msg s "userActions e (awaits s)"] by (simp add: suspend_def)

lemma flagsAt_start: "flagsAt e t0 t0 = (False, False)"
  by (simp add: flagsAt_def)

lemma flagsAt_Suc:
  "t0 \<le> t \<Longrightarrow> flagsAt e t0 (Suc t) = foldl (\<lambda>f a. applyAction a f) (flagsAt e t0 t) (userActions e t)"
  by (simp add: flagsAt_def)

lemma inSync_suspend: "inSync e t0 s \<Longrightarrow> inSync e t0 (suspend msg e s)"
  using suspend_flags [of msg e s] by (simp add: inSync_def flagsAt_Suc)

lemma inSync_addLog [simp]: "inSync e t0 (addLog f st m s) = inSync e t0 s"
  by (simp add: inSync_def)

lemma inSync_updates [simp]:
  "inSync e t0 (s\<lparr>uploadCalls := u\<rparr>) = inSync e t0 s"
  "inSync e t0 (s\<lparr>schedulingProgress := p\<rparr>) = inSync e t0 s"
  "inSync e t0 (s\<lparr>schedulingLog := l\<rparr>) = inSync e t0 s"
  by (simp_all add: inSync_def)

lemma inSync_attemptItem:
  "inSync e t0 s \<Longrightarrow> inSync e t0 (snd (attemptItem e activePage cfg scheduleTimes i s))"
  by (rule attemptItem_preserves [where P = "inSync e t0"]) (simp_all add: inSync_suspend)

lemma inSync_pauseWait:
  "pauseWait e s = Some s' \<Longrightarrow> inSync e t0 s \<Longrightarrow> inSync e t0 s'"
proof -
  assume a: "pauseWait e s = Some s'" and b: "inSync e t0 s"
  show "inSync e t0 s'"
    by (rule pauseWait_preserves [where P = "inSync e t0", OF a _ b]) (rule inSync_suspend)
qed

lemma pauseWait_returns_aux:
  "inSync e t0 s \<Longrightarrow> awaits s + k = t' \<Longrightarrow>
   (case flagsAt e t0 t' of (p, c) \<Rightarrow> \<not> p \<or> c) \<Longrightarrow> \<exists>s'. pauseWait e s = Some s'"
proof (induction k arbitrary: s)
  case 0
  then have "\<not> isPaused s \<or> cancelled s"
    by (auto simp add: inSync_def split: prod.splits)
  then show ?case by (subst pauseWait.simps) auto
next
  case (Suc k)
  show ?case
  proof (cases "isPaused s \<and> \<not> cancelled s")
    case False
    then show ?thesis by (subst pauseWait.simps) auto
  next
    case True
    have a: "inSync e t0 (suspend stopMessage e s)" using Suc.prems(1) by (rule inSync_suspend)
    have b: "awaits (suspend stopMessage e s) + k = t'" using Suc.prems(2) by simp
    obtain s' where "pauseWait e (suspend stopMessage e s) = Some s'"
      using Suc.IH [OF a b Suc.prems(3)] by blast
    then show ?thesis using True by (subst pauseWait.simps) simp
  qed
qed

lemma pauseWait_returns:
  assumes "pausesEnd e t0" "inSync e t0 s"
  shows "\<exists>s'. pauseWait e s = Some s'"
proof -
  have ge: "t0 \<le> awaits s" using assms(2) by (simp add: inSync_def)
  have all: "\<forall>t\<ge>t0. \<exists>t'\<ge>t. case flagsAt e t0 t' of (p, c) \<Rightarrow> \<not> p \<or> c"
    using assms(1) unfolding pausesEnd_def .
  have "\<exists>t'\<ge>awaits s. case flagsAt e t0 t' of (p, c) \<Rightarrow> \<not> p \<or> c"
    using all [rule_format, OF ge] .
  then obtain t' where t': "awaits s \<le> t'" "case flagsAt e t0 t' of (p, c) \<Rightarrow> \<not> p \<or> c"
    by (elim exE conjE)
  then have "awaits s + (t' - awaits s) = t'" by simp
  then show ?thesis using pauseWait_returns_aux [OF assms(2) _ t'(2)] by blast
qed

lemma runLoop_returns:
  assumes "pausesEnd e t0"
  shows "inSync e t0 s \<Longrightarrow> \<exists>s'. runLoop e activePage cfg scheduleTimes i s = Some s'"
proof (induction "length (files cfg) - i" arbitrary: i s)
  case 0
  then show ?case by (subst runLoop.simps) simp
next
  case (Suc n)
  then have i: "i < length (files cfg)" by simp
  show ?case
  proof (cases "cancelled s")
    case True
    then show ?thesis using i by (subst runLoop.simps) simp
  next
    case False
    obtain s1 where pw: "pauseWait e s = Some s1"
      using pauseWait_returns [OF assms Suc.prems] by blast
    have sync1: "inSync e t0 s1" using inSync_pauseWait [OF pw Suc.prems] .
    obtain r s4 where at: "attemptItem e activePage cfg scheduleTimes i s1 = (r, s4)"
      by (cases "attemptItem e activePage cfg scheduleTimes i s1")
    have sync4: "inSync e t0 s4" using inSync_attemptItem [OF sync1, of activePage cfg scheduleTimes i] at by simp
    have n: "n = length (files cfg) - (i + 1)" using Suc.hyps(2) by simp
    show ?thesis
    proof (cases r)
      case (Fulfilled u)
      obtain s' where "runLoop e activePage cfg scheduleTimes (i + 1) s4 = Some s'"
        using Suc.hyps(1) [OF n sync4] by blast
      then show ?thesis using i False pw at Fulfilled by (subst runLoop.simps) simp
    next
      case (Rejected msg)
      have "inSync e t0 (addLog (files cfg ! i) error (''Failed: '' @ msg) s4)" using sync4 by simp
      then obtain s' where "runLoop e activePage cfg scheduleTimes (i + 1)
                              (addLog (files cfg ! i) error (''Failed: '' @ msg) s4) = Some s'"
        using Suc.hyps(1) [OF n] by blast
      then show ?thesis using i False pw at Rejected by (subst runLoop.simps) (simp add: Let_def)
    qed
  qed
qed

section \<open>The trace of the item loop\<close>

lemma logAdds_refl: "logAdds P s s"
  by (simp add: logAdds_def)

lemma logAdds_trans:
  "logAdds P s s' \<Longrightarrow> logAdds P s' s'' \<Longrightarrow> logAdds P s s''"
  unfolding logAdds_def by fastforce

lemma logAdds_mono:
  "logAdds P s s' \<Longrightarrow> (\<And>x. P x \<Longrightarrow> Q x) \<Longrightarrow> logAdds Q s s'"
  unfolding logAdds_def by blast

lemma logAdds_addLog:
  "logAdds P s x \<Longrightarrow> P \<lparr>subject = f, status = st, message = m\<rparr> \<Longrightarrow> logAdds P s (addLog f st m x)"
  unfolding logAdds_def by auto

lemma logAdds_suspend:
  assumes "logAdds P s x" "\<And>y. subject y = [] \<and> status y = info \<Longrightarrow> P y"
  shows "logAdds P s (suspend msg e x)"
proof -
  have "logAdds (\<lambda>y. subject y = [] \<and> status y = info) x (suspend msg e x)"
    using quiet_fields(9) [OF quiet_suspend] .
  then have "logAdds P x (suspend msg e x)" using assms(2) by (rule logAdds_mono)
  with assms(1) show ?thesis by (rule logAdds_trans)
qed

lemma logAdds_updates [simp]:
  "logAdds P s (x\<lparr>uploadCalls := u\<rparr>) = logAdds P s x"
  "logAdds P s (x\<lparr>schedulingProgress := p\<rparr>) = logAdds P s x"
  "logAdds P s (x\<lparr>notifications := n\<rparr>) = logAdds P s x"
  "logAdds P s (x\<lparr>logouts := k\<rparr>) = logAdds P s x"
  by (simp_all add: logAdds_def)

lemma attemptItem_eq:
  "\<exists>t s3. attemptItem e activePage cfg scheduleTimes i s =
            uploadPost e activePage cfg (files cfg ! i) (Some t) s3 \<and>
          uploadCalls s3 = uploadCalls s \<and> logouts s3 = logouts s \<and>
          notifications s3 = notifications s \<and>
          isScheduling s3 = isScheduling s \<and>
          logAdds (\<lambda>x. subject x = files cfg ! i \<and> status x = info) s s3"
  unfolding attemptItem_def Let_def
  by (intro exI conjI, rule refl) (auto simp add: logAdds_def)

lemma attemptItem_trace:
  assumes "attemptItem e activePage cfg scheduleTimes i s = (r, s4)"
  shows "uploadCalls s4 = uploadCalls s @ [files cfg ! i]"
    and "logouts s4 = logouts s"
    and "notifications s4 = notifications s"
    and "isScheduling s4 = isScheduling s"
    and "logAdds (\<lambda>x. (subject x = [] \<or> subject x = files cfg ! i) \<and> status x \<noteq> error) s s4"
proof -
  let ?f = "files cfg ! i"
  let ?Q = "\<lambda>x. (subject x = [] \<or> subject x = ?f) \<and> status x \<noteq> error"
  obtain t s3 where eq: "attemptItem e activePage cfg scheduleTimes i s =
            uploadPost e activePage cfg ?f (Some t) s3"
    and s3: "uploadCalls s3 = uploadCalls s" "logouts s3 = logouts s"
       "notifications s3 = notifications s"
       "isScheduling s3 = isScheduling s"
       "logAdds (\<lambda>x. subject x = ?f \<and> status x = info) s s3"
    using attemptItem_eq [of e activePage cfg scheduleTimes i s] by blast
  have s4: "s4 = snd (uploadPost e activePage cfg ?f (Some t) s3)" using assms eq by simp
  show "uploadCalls s4 = uploadCalls s @ [?f]"
    unfolding s4 s3(1) [symmetric]
    by (rule uploadPost_preserves [where P = "\<lambda>x. uploadCalls x = uploadCalls s3 @ [?f]"]) simp_all
  show "logouts s4 = logouts s"
    unfolding s4 s3(2) [symmetric]
    by (rule uploadPost_preserves [where P = "\<lambda>x. logouts x = logouts s3"]) simp_all
  show "notifications s4 = notifications s"
    unfolding s4 s3(3) [symmetric]
    by (rule uploadPost_preserves [where P = "\<lambda>x. notifications x = notifications s3"]) simp_all
  show "isScheduling s4 = isScheduling s"
    unfolding s4 s3(4) [symmetric]
    by (rule uploadPost_preserves [where P = "\<lambda>x. isScheduling x = isScheduling s3"]) simp_all
  have q3: "logAdds ?Q s s3" using s3(5) by (rule logAdds_mono) simp
  show "logAdds ?Q s s4"
    unfolding s4
  proof (rule uploadPost_preserves [where P = "logAdds ?Q s"])
    show "logAdds ?Q s (suspend stopMessage e x)" if "logAdds ?Q s x" for x
      using that by (rule logAdds_suspend) simp
    show "logAdds ?Q s (addLog ?f st m x)" if "st \<noteq> error" "logAdds ?Q s x" for st m x
      using that by (intro logAdds_addLog) simp_all
    show "logAdds ?Q s (s3\<lparr>uploadCalls := uploadCalls s3 @ [?f]\<rparr>)" using q3 by simp
  qed
qed

lemma take_Suc_drop: "i < length xs \<Longrightarrow> take (Suc k) (drop i xs) = xs ! i # take k (drop (Suc i) xs)"
  by (simp add: Cons_nth_drop_Suc [symmetric])

lemma runLoop_trace:
  "runLoop e activePage cfg scheduleTimes i s = Some s' \<Longrightarrow>
   logouts s' \<le> logouts s + 1 \<and>
   (\<exists>k. uploadCalls s' = uploadCalls s @ take k (drop i (files cfg)) \<and>
        logAdds (\<lambda>x. subject x \<in> insert [] (set (take k (drop i (files cfg))))) s s')"
proof (induction "length (files cfg) - i" arbitrary: i s)
  case 0
  then have "s' = s" by (subst (asm) runLoop.simps) simp
  then have "uploadCalls s' = uploadCalls s @ take 0 (drop i (files cfg)) \<and>
        logAdds (\<lambda>x. subject x \<in> insert [] (set (take 0 (drop i (files cfg))))) s s'"
    by (simp add: logAdds_refl)
  then show ?case using \<open>s' = s\<close> by (intro conjI exI [where x = 0]) simp_all
next
  case (Suc n)
  then have i: "i < length (files cfg)" by simp
  let ?f = "files cfg ! i"
  show ?case
  proof (cases "cancelled s")
    case True
    then have s': "s' = addNotification ''Scheduling process cancelled.'' info
                      (addLog [] info ''Scheduling cancelled by user.'' s)"
      using Suc.prems i by (subst (asm) runLoop.simps) simp
    have "uploadCalls s' = uploadCalls s @ take 0 (drop i (files cfg)) \<and>
        logAdds (\<lambda>x. subject x \<in> insert [] (set (take 0 (drop i (files cfg))))) s s'"
      unfolding s' by (simp add: addNotification_def logAdds_def)
    moreover have "logouts s' \<le> logouts s + 1" unfolding s' by (simp add: addNotification_def)
    ultimately show ?thesis by (intro conjI exI [where x = 0]) simp_all
  next
    case False
    obtain s1 where pw: "pauseWait e s = Some s1"
      using Suc.prems i False by (subst (asm) runLoop.simps) (auto split: option.splits)
    have q: "quiet s s1" using pauseWait_quiet [OF pw] by simp
    obtain r s4 where at: "attemptItem e activePage cfg scheduleTimes i s1 = (r, s4)"
      by (cases "attemptItem e activePage cfg scheduleTimes i s1")
    note tr = attemptItem_trace [OF at]
    have calls4: "uploadCalls s4 = uploadCalls s @ [?f]" using tr(1) quiet_fields(1) [OF q] by simp
    have out4: "logouts s4 = logouts s" using tr(2) quiet_fields(2) [OF q] by simp
    have "logAdds (\<lambda>x. subject x \<in> {[], ?f}) s s1"
      using quiet_fields(9) [OF q] by (rule logAdds_mono) simp
    moreover have "logAdds (\<lambda>x. subject x \<in> {[], ?f}) s1 s4"
      using tr(5) by (rule logAdds_mono) auto
    ultimately have log4: "logAdds (\<lambda>x. subject x \<in> {[], ?f}) s s4" by (rule logAdds_trans)
    have n: "n = length (files cfg) - (i + 1)" using Suc.hyps(2) by simp
    have step: "logouts s' \<le> logouts s + 1 \<and>
        (\<exists>k. uploadCalls s' = uploadCalls s @ take k (drop i (files cfg)) \<and>
           logAdds (\<lambda>x. subject x \<in> insert [] (set (take k (drop i (files cfg))))) s s')"
      if nxt: "runLoop e activePage cfg scheduleTimes (i + 1) s5 = Some s'"
        and calls5: "uploadCalls s5 = uploadCalls s @ [?f]"
        and out5: "logouts s5 = logouts s"
        and log5: "logAdds (\<lambda>x. subject x \<in> {[], ?f}) s s5" for s5
    proof -
      obtain k where le: "logouts s' \<le> logouts s5 + 1"
        and calls: "uploadCalls s' = uploadCalls s5 @ take k (drop (i + 1) (files cfg))"
        and lg: "logAdds (\<lambda>x. subject x \<in> insert [] (set (take k (drop (i + 1) (files cfg))))) s5 s'"
        using Suc.hyps(1) [OF n nxt] by blast
      let ?new = "take (Suc k) (drop i (files cfg))"
      have new: "?new = ?f # take k (drop (i + 1) (files cfg))" using take_Suc_drop [OF i] by simp
      have "uploadCalls s' = uploadCalls s @ ?new" using calls calls5 new by simp
      moreover have "logAdds (\<lambda>x. subject x \<in> insert [] (set ?new)) s s'"
      proof (rule logAdds_trans)
        show "logAdds (\<lambda>x. subject x \<in> insert [] (set ?new)) s s5"
          using log5 by (rule logAdds_mono) (auto simp add: new)
        show "logAdds (\<lambda>x. subject x \<in> insert [] (set ?new)) s5 s'"
          using lg by (rule logAdds_mono) (auto simp add: new)
      qed
      ultimately show ?thesis using le out5 by (intro conjI exI [where x = "Suc k"]) simp_all
    qed
    show ?thesis
    proof (cases r)
      case (Fulfilled u)
      then have "runLoop e activePage cfg scheduleTimes (i + 1) s4 = Some s'"
        using Suc.prems i False pw at by (subst (asm) runLoop.simps) simp
      then show ?thesis using calls4 out4 log4 by (rule step)
    next
      case (Rejected msg)
      let ?s5 = "addLog ?f error (''Failed: '' @ msg) s4"
      have calls5: "uploadCalls ?s5 = uploadCalls s @ [?f]" using calls4 by simp
      have out5: "logouts ?s5 = logouts s" using out4 by simp
      have log5: "logAdds (\<lambda>x. subject x \<in> {[], ?f}) s ?s5"
        using log4 by (rule logAdds_addLog) simp
      show ?thesis
      proof (cases "isAuthError msg")
        case False
        then have "runLoop e activePage cfg scheduleTimes (i + 1) ?s5 = Some s'"
          using Suc.prems i \<open>\<not> cancelled s\<close> pw at Rejected
          by (subst (asm) runLoop.simps) (simp add: Let_def)
        then show ?thesis using calls5 out5 log5 by (rule step)
      next
        case True
        then have s': "s' = handleLogout
                 (addNotification ''Facebook token expired during operation. Please log in again.''
                    error ?s5)"
          using Suc.prems i \<open>\<not> cancelled s\<close> pw at Rejected
          by (subst (asm) runLoop.simps) (simp add: Let_def)
        have "uploadCalls s' = uploadCalls s @ take 1 (drop i (files cfg))"
          unfolding s' using calls4 take_Suc_drop [OF i, of 0]
          by (simp add: handleLogout_def addNotification_def)
        moreover have "logAdds (\<lambda>x. subject x \<in> insert [] (set (take 1 (drop i (files cfg))))) s s'"
          unfolding s' using log5 take_Suc_drop [OF i, of 0]
          by (simp add: handleLogout_def addNotification_def logAdds_def)
        moreover have "logouts s' \<le> logouts s + 1"
          unfolding s' using out4 by (simp add: handleLogout_def addNotification_def)
        ultimately show ?thesis by (intro conjI exI [where x = 1]) simp_all
      qed
    qed
  qed
qed


lemma runLoop_isScheduling:
  "runLoop e activePage cfg scheduleTimes i s = Some s' \<Longrightarrow> isScheduling s' = isScheduling s"
proof (induction "length (files cfg) - i" arbitrary: i s)
  case 0
  then show ?case by (subst (asm) runLoop.simps) simp
next
  case (Suc n)
  then have i: "i < length (files cfg)" by simp
  show ?case
  proof (cases "cancelled s")
    case True
    then show ?thesis using Suc.prems i
      by (subst (asm) runLoop.simps) (auto simp add: addNotification_def)
  next
    case False
    obtain s1 where pw: "pauseWait e s = Some s1"
      using Suc.prems i False by (subst (asm) runLoop.simps) (auto split: option.splits)
    have q: "quiet s s1" using pauseWait_quiet [OF pw] by simp
    obtain r s4 where at: "attemptItem e activePage cfg scheduleTimes i s1 = (r, s4)"
      by (cases "attemptItem e activePage cfg scheduleTimes i s1")
    note tr = attemptItem_trace [OF at]
    have s4: "isScheduling s4 = isScheduling s"
      using tr(4) quiet_fields(3) [OF q] by simp
    have n: "n = length (files cfg) - (i + 1)" using Suc.hyps(2) by simp
    show ?thesis
    proof (cases r)
      case (Fulfilled u)
      then have "runLoop e activePage cfg scheduleTimes (i + 1) s4 = Some s'"
        using Suc.prems i False pw at by (subst (asm) runLoop.simps) simp
      then show ?thesis using Suc.hyps(1) [OF n] s4 by simp
    next
      case (Rejected msg)
      let ?s5 = "addLog (files cfg ! i) error (''Failed: '' @ msg) s4"
      show ?thesis
      proof (cases "isAuthError msg")
        case False
        then have "runLoop e activePage cfg scheduleTimes (i + 1) ?s5 = Some s'"
          using Suc.prems i \<open>\<not> cancelled s\<close> pw at Rejected
          by (subst (asm) runLoop.simps) (simp add: Let_def)
        then show ?thesis using Suc.hyps(1) [OF n, of ?s5] s4 by simp
      next
        case True
        then have "s' = handleLogout
                 (addNotification ''Facebook token expired during operation. Please log in again.''
                    error ?s5)"
          using Suc.prems i \<open>\<not> cancelled s\<close> pw at Rejected
          by (subst (asm) runLoop.simps) (simp add: Let_def)
        then show ?thesis using s4 by (simp add: handleLogout_def addNotification_def)
      qed
    qed
  qed
qed

lemma runLoop_log:
  assumes "runLoop e activePage cfg scheduleTimes i s = Some s'"
  shows "\<exists>l. schedulingLog s' = l @ schedulingLog s"
  using runLoop_trace [OF assms] by (auto simp add: logAdds_def)

lemma runLoop_ends:
  "\<not> i < length (files cfg) \<Longrightarrow> runLoop e activePage cfg scheduleTimes i s = Some s"
  by (subst runLoop.simps) simp

lemma runLoop_cancelled:
  "i < length (files cfg) \<Longrightarrow> cancelled s \<Longrightarrow>
   runLoop e activePage cfg scheduleTimes i s =
     Some (addNotification ''Scheduling process cancelled.'' info
             (addLog [] info ''Scheduling cancelled by user.'' s))"
  by (subst runLoop.simps) simp

lemma runLoop_attempts:
  assumes run: "runLoop e activePage cfg scheduleTimes i s = Some s'"
      and i: "i < length (files cfg)" and nc: "\<not> cancelled s"
  shows "\<exists>k. uploadCalls s' = uploadCalls s @ files cfg ! i # take k (drop (i + 1) (files cfg))"
proof -
  obtain s1 where pw: "pauseWait e s = Some s1"
    using run i nc by (subst (asm) runLoop.simps) (auto split: option.splits)
  have q: "quiet s s1" using pauseWait_quiet [OF pw] by simp
  obtain r s4 where at: "attemptItem e activePage cfg scheduleTimes i s1 = (r, s4)"
    by (cases "attemptItem e activePage cfg scheduleTimes i s1")
  have calls4: "uploadCalls s4 = uploadCalls s @ [files cfg ! i]"
    using attemptItem_trace(1) [OF at] quiet_fields(1) [OF q] by simp
  have rest: ?thesis
    if nxt: "runLoop e activePage cfg scheduleTimes (i + 1) s5 = Some s'"
      and calls5: "uploadCalls s5 = uploadCalls s @ [files cfg ! i]" for s5
  proof -
    obtain k where "uploadCalls s' = uploadCalls s5 @ take k (drop (i + 1) (files cfg))"
      using runLoop_trace [OF nxt] by blast
    then show ?thesis using calls5 by (intro exI [where x = k]) simp
  qed
  show ?thesis
  proof (cases r)
    case (Fulfilled u)
    then have "runLoop e activePage cfg scheduleTimes (i + 1) s4 = Some s'"
      using run i nc pw at by (subst (asm) runLoop.simps) simp
    then show ?thesis using calls4 by (rule rest)
  next
    case (Rejected msg)
    let ?s5 = "addLog (files cfg ! i) error (''Failed: '' @ msg) s4"
    show ?thesis
    proof (cases "isAuthError msg")
      case False
      then have "runLoop e activePage cfg scheduleTimes (i + 1) ?s5 = Some s'"
        using run i nc pw at Rejected by (subst (asm) runLoop.simps) (simp add: Let_def)
      moreover have "uploadCalls ?s5 = uploadCalls s @ [files cfg ! i]" using calls4 by simp
      ultimately show ?thesis by (rule rest)
    next
      case True
      then have "s' = handleLogout
                 (addNotification ''Facebook token expired during operation. Please log in again.''
                    error ?s5)"
        using run i nc pw at Rejected by (subst (asm) runLoop.simps) (simp add: Let_def)
      then have "uploadCalls s' = uploadCalls s @ files cfg ! i # take 0 (drop (i + 1) (files cfg))"
        using calls4 by (simp add: handleLogout_def addNotification_def)
      then show ?thesis by (rule exI)
    qed
  qed
qed

lemma afterItems_step:
  assumes "afterItems e activePage cfg scheduleTimes i s (Suc n) = Some s'"
  shows "\<exists>sx. afterItems e activePage cfg scheduleTimes (i + 1) sx n = Some s' \<and>
              runLoop e activePage cfg scheduleTimes i s =
                runLoop e activePage cfg scheduleTimes (i + 1) sx \<and>
              (\<forall>t0. inSync e t0 s \<longrightarrow> inSync e t0 sx)"
proof -
  have i: "i < length (files cfg)" and nc: "\<not> cancelled s"
    using assms by (auto split: if_splits)
  obtain s1 where pw: "pauseWait e s = Some s1"
    using assms i nc by (auto split: option.splits)
  obtain r s4 where at: "attemptItem e activePage cfg scheduleTimes i s1 = (r, s4)"
    by (cases "attemptItem e activePage cfg scheduleTimes i s1")
  have sync4: "inSync e t0 s4" if "inSync e t0 s" for t0
    using inSync_attemptItem [OF inSync_pauseWait [OF pw that], of activePage cfg scheduleTimes i] at
    by simp
  show ?thesis
  proof (cases r)
    case (Fulfilled u)
    have "afterItems e activePage cfg scheduleTimes (i + 1) s4 n = Some s'"
      using assms i nc pw at Fulfilled by simp
    moreover have "runLoop e activePage cfg scheduleTimes i s =
                     runLoop e activePage cfg scheduleTimes (i + 1) s4"
      using i nc pw at Fulfilled by (subst runLoop.simps) simp
    ultimately show ?thesis using sync4 by (intro exI [where x = s4]) simp
  next
    case (Rejected msg)
    let ?s5 = "addLog (files cfg ! i) error (''Failed: '' @ msg) s4"
    have na: "\<not> isAuthError msg"
      using assms i nc pw at Rejected by (auto split: if_splits)
    have "afterItems e activePage cfg scheduleTimes (i + 1) ?s5 n = Some s'"
      using assms i nc pw at Rejected na by simp
    moreover have "runLoop e activePage cfg scheduleTimes i s =
                     runLoop e activePage cfg scheduleTimes (i + 1) ?s5"
      using i nc pw at Rejected na by (subst runLoop.simps) (simp add: Let_def)
    ultimately show ?thesis using sync4 by (intro exI [where x = ?s5]) simp
  qed
qed

lemma afterItems_runLoop:
  "afterItems e activePage cfg scheduleTimes i s n = Some s' \<Longrightarrow>
   runLoop e activePage cfg scheduleTimes i s = runLoop e activePage cfg scheduleTimes (i + n) s'"
proof (induction n arbitrary: i s)
  case 0
  then show ?case by simp
next
  case (Suc n)
  obtain sx where "afterItems e activePage cfg scheduleTimes (i + 1) sx n = Some s'"
    and "runLoop e activePage cfg scheduleTimes i s = runLoop e activePage cfg scheduleTimes (i + 1) sx"
    using afterItems_step [OF Suc.prems] by blast
  then show ?case using Suc.IH [of "i + 1" sx] by simp
qed

lemma afterItems_inSync:
  "afterItems e activePage cfg scheduleTimes i s n = Some s' \<Longrightarrow> inSync e t0 s \<Longrightarrow> inSync e t0 s'"
proof (induction n arbitrary: i s)
  case 0
  then show ?case by simp
next
  case (Suc n)
  obtain sx where "afterItems e activePage cfg scheduleTimes (i + 1) sx n = Some s'"
    and "inSync e t0 sx"
    using afterItems_step [OF Suc.prems(1)] Suc.prems(2) by blast
  then show ?case using Suc.IH [of "i + 1" sx] by simp
qed

section \<open>The handler of the uploader page\<close>

lemma includes_str_sublist: "includes_str str sub \<longleftrightarrow> sublist sub str"
  by (induction str) (simp_all add: sublist_Cons_right)

lemma isAuthError_iff:
  "isAuthError msg \<longleftrightarrow>
     sublist ''session'' (toLowerCase msg) \<or> sublist ''token'' (toLowerCase msg) \<or>
     sublist ''oauth'' (toLowerCase msg)"
  by (simp add: isAuthError_def Let_def includes_str_sublist)

lemma generateSchedule_inSync:
  assumes "generateSchedule e page cfg s = (r, s2)" "inSync e t0 s"
  shows "inSync e t0 s2"
  using assms
  by (auto simp add: generateSchedule_def Let_def inSync_suspend split: if_splits option.splits)

lemma generateSchedule_rejected:
  assumes "generateSchedule e page cfg s = (Rejected msg, s2)"
  shows "\<not> smartScheduleEnabled cfg" and "genError e = Some msg"
    and "s2 = addLog [] info
                (''Using Manual Schedule for '' @ showNat (length (files cfg)) @ '' files...'') s"
  using assms
  by (auto simp add: generateSchedule_def Let_def split: if_splits option.splits)

lemma start_inSync:
  "inSync e (awaits s)
     ((setIsScheduling True s)
        \<lparr>isPaused := False, cancelled := False, schedulingLog := [], schedulingProgress := p\<rparr>)"
  by (simp add: inSync_def setIsScheduling_def flagsAt_start)

section \<open>Failures of an item and of the generation\<close>

text \<open>
  Claim C4. When the upload of item \<open>i\<close> fails with a message that \<^verbatim>\<open>isAuthError\<close>
  recognises (it contains session, token or oauth, in any letter case), the loop returns
  at once: the last entry logged is the error of item \<open>i\<close>, item \<open>i\<close> is the last one
  handed to the upload function, and \<^verbatim>\<open>handleLogout\<close> has been called once more than
  before the item. No run of the loop calls it more than once.
\<close>

theorem auth_failure_aborts_run:
  assumes i: "i < length (files cfg)" and nc: "\<not> cancelled s"
      and pw: "pauseWait e s = Some s1"
      and at: "attemptItem e activePage cfg scheduleTimes i s1 = (Rejected msg, s4)"
      and auth: "isAuthError msg"
      and fin: "s' = handleLogout
                  (addNotification ''Facebook token expired during operation. Please log in again.''
                     error (addLog (files cfg ! i) error (''Failed: '' @ msg) s4))"
  shows "runLoop e activePage cfg scheduleTimes i s = Some s' \<and>
         schedulingLog s' =
           \<lparr>subject = files cfg ! i, status = error, message = ''Failed: '' @ msg\<rparr>
             # schedulingLog s4 \<and>
         uploadCalls s' = uploadCalls s @ [files cfg ! i] \<and>
         logouts s' = logouts s + 1 \<and>
         (\<forall>j s0 sN. runLoop e activePage cfg scheduleTimes j s0 = Some sN
            \<longrightarrow> logouts sN \<le> logouts s0 + 1)"
proof -
  have q: "quiet s s1" using pauseWait_quiet [OF pw] by simp
  note tr = attemptItem_trace [OF at]
  have "runLoop e activePage cfg scheduleTimes i s = Some s'"
    using i nc pw at auth fin by (subst runLoop.simps) (simp add: Let_def)
  moreover have "schedulingLog s' =
           \<lparr>subject = files cfg ! i, status = error, message = ''Failed: '' @ msg\<rparr>
             # schedulingLog s4"
    unfolding fin by (simp add: handleLogout_def addNotification_def)
  moreover have "uploadCalls s' = uploadCalls s @ [files cfg ! i]"
    unfolding fin using tr(1) quiet_fields(1) [OF q]
    by (simp add: handleLogout_def addNotification_def)
  moreover have "logouts s' = logouts s + 1"
    unfolding fin using tr(2) quiet_fields(2) [OF q]
    by (simp add: handleLogout_def addNotification_def)
  moreover have "\<forall>j s0 sN. runLoop e activePage cfg scheduleTimes j s0 = Some sN
            \<longrightarrow> logouts sN \<le> logouts s0 + 1"
    using runLoop_trace by blast
  ultimately show ?thesis by simp
qed

text \<open>
  Claim C8. A run of the handler has generated its schedule and reaches item \<open>i\<close>, not
  cancelled; the pause loop ends and the upload of the item fails with a message that is
  not an authentication error. The loop logs the error for the item and goes on with
  iteration \<open>i + 1\<close>; if the user does not leave the run paused for ever, it returns.
  In its result the error entry of item \<open>i\<close> lies on top of what had been logged
  when the upload failed, and under everything logged later; the items handed to
  the upload function from item \<open>i\<close> on are item \<open>i\<close> and \<open>k\<close> of the items that follow
  it, in order, and item \<open>i + 1\<close> is among them (\<open>k > 0\<close>) when there is such an item and
  the user has not asked to stop while item \<open>i\<close> was in flight. The handler then returns
  with the entry ``Scheduling complete.'' on top of that log and with the run state
  not running.
\<close>

theorem item_failure_continues:
  assumes idle: "\<not> isScheduling s0" and nonempty: "files cfg \<noteq> []"
      and gen: "generateSchedule e page cfg
                  ((setIsScheduling True s0)
                     \<lparr>isPaused := False, cancelled := False, schedulingLog := [],
                      schedulingProgress := (0, length (files cfg))\<rparr>) = (Fulfilled ts, s2)"
      and reach: "afterItems e (Some page) cfg ts 0 s2 i = Some s"
      and i: "i < length (files cfg)" and nc: "\<not> cancelled s"
      and pw: "pauseWait e s = Some s1"
      and at: "attemptItem e (Some page) cfg ts i s1 = (Rejected msg, s4)"
      and other: "\<not> isAuthError msg"
      and live: "pausesEnd e (awaits s0)"
  shows "\<exists>s3 sN l k.
           runLoop e (Some page) cfg ts i s = Some s3 \<and>
           runLoop e (Some page) cfg ts (i + 1)
             (addLog (files cfg ! i) error (''Failed: '' @ msg) s4) = Some s3 \<and>
           schedulingLog s3 =
             l @ \<lparr>subject = files cfg ! i, status = error, message = ''Failed: '' @ msg\<rparr>
                   # schedulingLog s4 \<and>
           uploadCalls s3 = uploadCalls s @ files cfg ! i # take k (drop (i + 1) (files cfg)) \<and>
           (if i + 1 < length (files cfg) \<and> \<not> cancelled s4 then 0 < k else k = 0) \<and>
           handleSchedulingProcess e (Some page) cfg s0 = Some sN \<and>
           sN = (setIsScheduling False
                   (addNotification ''Bulk scheduling process has finished.'' success
                      (addLog [] info ''Scheduling complete.'' s3)))\<lparr>isPaused := False\<rparr> \<and>
           \<not> isScheduling sN \<and>
           schedulingLog sN =
             \<lparr>subject = [], status = info, message = ''Scheduling complete.''\<rparr> # schedulingLog s3 \<and>
           uploadCalls sN = uploadCalls s3"
proof -
  let ?s1 = "(setIsScheduling True s0)
               \<lparr>isPaused := False, cancelled := False, schedulingLog := [],
                schedulingProgress := (0, length (files cfg))\<rparr>"
  let ?f = "files cfg ! i"
  let ?s5 = "addLog ?f error (''Failed: '' @ msg) s4"
  let ?fin = "\<lambda>x. (setIsScheduling False
                   (addNotification ''Bulk scheduling process has finished.'' success
                      (addLog [] info ''Scheduling complete.'' x)))\<lparr>isPaused := False\<rparr>"
  \<comment> \<open>the flags follow the user up to the failure\<close>
  have "inSync e (awaits s0) s2" using generateSchedule_inSync [OF gen start_inSync] .
  then have sync: "inSync e (awaits s0) s" using afterItems_inSync [OF reach] by simp
  have sync1: "inSync e (awaits s0) s1" using inSync_pauseWait [OF pw sync] .
  have "inSync e (awaits s0) s4"
    using inSync_attemptItem [OF sync1, of "Some page" cfg ts i] at by simp
  then have sync5: "inSync e (awaits s0) ?s5" by simp
  \<comment> \<open>the loop goes on with the next iteration and returns\<close>
  have step: "runLoop e (Some page) cfg ts i s = runLoop e (Some page) cfg ts (i + 1) ?s5"
    using i nc pw at other by (subst runLoop.simps) (simp add: Let_def)
  obtain s3 where rest: "runLoop e (Some page) cfg ts (i + 1) ?s5 = Some s3"
    using runLoop_returns [OF live sync5] by blast
  have q: "quiet s s1" using pauseWait_quiet [OF pw] by simp
  have calls5: "uploadCalls ?s5 = uploadCalls s @ [?f]"
    using attemptItem_trace(1) [OF at] quiet_fields(1) [OF q] by simp
  obtain l where log3: "schedulingLog s3 = l @ schedulingLog ?s5"
    using runLoop_log [OF rest] by blast
  have "\<exists>k. uploadCalls s3 = uploadCalls s @ ?f # take k (drop (i + 1) (files cfg)) \<and>
            (if i + 1 < length (files cfg) \<and> \<not> cancelled s4 then 0 < k else k = 0)"
  proof (cases "i + 1 < length (files cfg)")
    case False
    then have "s3 = ?s5" using rest runLoop_ends [of "i + 1" cfg e "Some page" ts ?s5] by simp
    then show ?thesis using calls5 False by (intro exI [where x = 0]) simp
  next
    case more: True
    show ?thesis
    proof (cases "cancelled s4")
      case True
      then have "s3 = addNotification ''Scheduling process cancelled.'' info
                        (addLog [] info ''Scheduling cancelled by user.'' ?s5)"
        using rest runLoop_cancelled [OF more, of ?s5 e "Some page" ts] by simp
      then show ?thesis using calls5 True
        by (intro exI [where x = 0]) (simp add: addNotification_def)
    next
      case False
      then have "\<not> cancelled ?s5" by simp
      then obtain k where "uploadCalls s3 =
          uploadCalls ?s5 @ files cfg ! (i + 1) # take k (drop (i + 1 + 1) (files cfg))"
        using runLoop_attempts [OF rest more] by blast
      then have "uploadCalls s3 = uploadCalls s @ ?f # take (Suc k) (drop (i + 1) (files cfg))"
        using calls5 take_Suc_drop [OF more, of k] by simp
      then show ?thesis using more False by (intro exI [where x = "Suc k"]) simp
    qed
  qed
  then obtain k where calls3: "uploadCalls s3 = uploadCalls s @ ?f # take k (drop (i + 1) (files cfg))"
    and k: "if i + 1 < length (files cfg) \<and> \<not> cancelled s4 then 0 < k else k = 0"
    by blast
  \<comment> \<open>the handler finishes the run\<close>
  have "runLoop e (Some page) cfg ts 0 s2 = runLoop e (Some page) cfg ts i s"
    using afterItems_runLoop [OF reach] by simp
  then have "runLoop e (Some page) cfg ts 0 s2 = Some s3" using step rest by simp
  then have handle: "handleSchedulingProcess e (Some page) cfg s0 = Some (?fin s3)"
    using idle nonempty gen by (simp add: handleSchedulingProcess_def Let_def)
  have fin: "\<not> isScheduling (?fin s3)"
    "schedulingLog (?fin s3) =
       \<lparr>subject = [], status = info, message = ''Scheduling complete.''\<rparr> # schedulingLog s3"
    "uploadCalls (?fin s3) = uploadCalls s3"
    by (simp_all add: setIsScheduling_def addNotification_def)
  have "schedulingLog s3 =
          l @ \<lparr>subject = ?f, status = error, message = ''Failed: '' @ msg\<rparr> # schedulingLog s4"
    using log3 by simp
  then show ?thesis
    using step rest calls3 k handle fin
    by (intro exI [where x = s3] exI [where x = "?fin s3"] exI [where x = l] exI [where x = k])
      simp
qed

text \<open>
  Claim C5. When the generation of the slots throws, the handler returns a state of the
  page that differs from the state in which it was called only in what the handler
  wrote before the generation and in its catch block: the pause and cancellation flags
  are cleared, the log is replaced by the entry of the generation with the failure entry
  on top of it, the progress is reset and one error notification is added. No item has
  been handed to the upload function and nobody has been logged out. The run state is
  not running when the handler is called and not running when it returns, and the
  handler passes no suspension point in between: it writes true before the generation
  and false in the catch block within one synchronous stretch, during which the page
  does not render and the user cannot act, so that the run state is never seen running.
  Accordingly the state returned is the same whatever the user does, the clock shows and
  the network answers.
\<close>

theorem generation_failure_aborts:
  assumes idle: "\<not> isScheduling s" and nonempty: "files cfg \<noteq> []"
      and gen: "generateSchedule e page cfg
                  ((setIsScheduling True s)
                     \<lparr>isPaused := False, cancelled := False, schedulingLog := [],
                      schedulingProgress := (0, length (files cfg))\<rparr>) = (Rejected msg, s2)"
  shows "\<exists>sN. handleSchedulingProcess e (Some page) cfg s = Some sN \<and>
           sN = s\<lparr>isPaused := False, cancelled := False,
                   schedulingLog :=
                     [\<lparr>subject = [], status = error,
                       message = ''Schedule generation failed: '' @ msg\<rparr>,
                      \<lparr>subject = [], status = info,
                       message = ''Using Manual Schedule for '' @ showNat (length (files cfg))
                                   @ '' files...''\<rparr>],
                   schedulingProgress := (0, length (files cfg)),
                   notifications := (''Could not generate schedule: '' @ msg, error) # notifications s\<rparr> \<and>
           \<not> isScheduling sN \<and> awaits sN = awaits s \<and>
           uploadCalls sN = uploadCalls s \<and> logouts sN = logouts s \<and>
           (\<forall>e'. genError e' = genError e \<longrightarrow>
              handleSchedulingProcess e' (Some page) cfg s = Some sN)"
proof -
  let ?s1 = "(setIsScheduling True s)
               \<lparr>isPaused := False, cancelled := False, schedulingLog := [],
                schedulingProgress := (0, length (files cfg))\<rparr>"
  let ?sN = "setIsScheduling False
               (addNotification (''Could not generate schedule: '' @ msg) error
                  (addLog [] error (''Schedule generation failed: '' @ msg) s2))"
  have s2: "s2 = addLog [] info
                   (''Using Manual Schedule for '' @ showNat (length (files cfg)) @ '' files...'') ?s1"
    using generateSchedule_rejected(3) [OF gen] .
  have "handleSchedulingProcess e (Some page) cfg s = Some ?sN"
    using idle nonempty gen by (simp add: handleSchedulingProcess_def Let_def)
  moreover have "?sN = s\<lparr>isPaused := False, cancelled := False,
                   schedulingLog :=
                     [\<lparr>subject = [], status = error,
                       message = ''Schedule generation failed: '' @ msg\<rparr>,
                      \<lparr>subject = [], status = info,
                       message = ''Using Manual Schedule for '' @ showNat (length (files cfg))
                                   @ '' files...''\<rparr>],
                   schedulingProgress := (0, length (files cfg)),
                   notifications := (''Could not generate schedule: '' @ msg, error) # notifications s\<rparr>"
    unfolding s2 using idle
    by (cases s) (simp add: setIsScheduling_def addNotification_def addLog_def)
  moreover have "\<not> isScheduling ?sN" "awaits ?sN = awaits s" "uploadCalls ?sN = uploadCalls s"
    "logouts ?sN = logouts s"
    unfolding s2 by (simp_all add: setIsScheduling_def addNotification_def)
  moreover have "handleSchedulingProcess e' (Some page) cfg s = Some ?sN"
    if "genError e' = genError e" for e'
  proof -
    have "generateSchedule e' page cfg ?s1 = (Rejected msg, s2)"
      using that generateSchedule_rejected(1,2) [OF gen] s2
      by (simp add: generateSchedule_def Let_def)
    then show ?thesis
      using idle nonempty by (simp add: handleSchedulingProcess_def Let_def)
  qed
  ultimately show ?thesis by (intro exI [where x = ?sN]) simp
qed

section \<open>Runs on the example inputs\<close>

lemma showNat_small: "showNat (Suc 0) = ''1''" "showNat (Suc (Suc 0)) = ''2''"
  by (subst showNat.simps, simp)+

lemma example_files:
  "files twoFiles = [''a'', ''b'']" "smartScheduleEnabled twoFiles = False"
  "files oneFile = [''a'']" "smartScheduleEnabled oneFile = False"
  by (simp_all add: twoFiles_def oneFile_def fiveFiles_def)

lemma attemptItem_fulfilled:
  assumes "\<And>t. fetchJson e t = Fulfilled \<lparr>error_message = None, response_id = Some ''1''\<rparr>"
  shows "fst (attemptItem e (Some pg) cfg ts i s) = Fulfilled ()"
  by (simp add: attemptItem_def uploadPost_def uploadMedia_def createFeedPost_def Let_def assms)

lemma attemptItem_run:
  assumes "\<And>t. fetchJson e t = Fulfilled \<lparr>error_message = None, response_id = Some ''1''\<rparr>"
  obtains s4 where "attemptItem e (Some pg) cfg ts i s = (Fulfilled (), s4)"
    and "awaits s4 = awaits s + 3"
proof -
  have "awaits (snd (attemptItem e (Some pg) cfg ts i s)) = awaits s + 3"
    by (simp add: attemptItem_def uploadPost_def uploadMedia_def createFeedPost_def Let_def assms)
  then show ?thesis
    using attemptItem_fulfilled [OF assms, of pg cfg ts i s] that
    by (cases "attemptItem e (Some pg) cfg ts i s") simp
qed

lemma pauseThenStop_fetch:
  "fetchJson pauseThenStop t = Fulfilled \<lparr>error_message = None, response_id = Some ''1''\<rparr>"
  by (simp add: pauseThenStop_def quietEnv_def)

lemma pauseThenStop_flags:
  "flagsAt pauseThenStop 0 3 = (True, False)"
  "flagsAt pauseThenStop 0 4 = (True, True)"
  "flagsAt pauseThenStop 0 7 = (True, True)"
  by (simp_all add: eval_nat_numeral flagsAt_Suc flagsAt_start pauseThenStop_def quietEnv_def)

text \<open>
  Claim C3. Two files, every request succeeds; the user pauses while the first file is
  in flight and clicks stop during the first sleep of the pause loop that precedes the
  second file. The run reaches the second iteration paused and not cancelled, the pause
  loop ends with the cancellation flag set, and the second file is handed to the upload
  function all the same: the \<^verbatim>\<open>break\<close> leaves the pause loop only.
\<close>

theorem stop_during_pause_processes_item:
  "\<exists>s2 s4 s4' sN.
     handleSchedulingProcess pauseThenStop (Some pageA) twoFiles idle =
       map_option (\<lambda>s. (setIsScheduling False
                           (addNotification ''Bulk scheduling process has finished.'' success
                              (addLog [] info ''Scheduling complete.'' s)))\<lparr>isPaused := False\<rparr>)
         (runLoop pauseThenStop (Some pageA) twoFiles (manualSchedule 0 twoFiles 2) 0 s2) \<and>
     runLoop pauseThenStop (Some pageA) twoFiles (manualSchedule 0 twoFiles 2) 0 s2 =
       runLoop pauseThenStop (Some pageA) twoFiles (manualSchedule 0 twoFiles 2) 1 s4 \<and>
     uploadCalls s4 = [''a''] \<and> isPaused s4 \<and> \<not> cancelled s4 \<and>
     pauseWait pauseThenStop s4 = Some s4' \<and> cancelled s4' \<and>
     handleSchedulingProcess pauseThenStop (Some pageA) twoFiles idle = Some sN \<and>
     uploadCalls sN = [''a'', ''b'']"
proof -
  let ?e = pauseThenStop
  let ?pg = "Some pageA"
  let ?ts = "manualSchedule 0 twoFiles 2"
  let ?fin = "\<lambda>s. (setIsScheduling False
                           (addNotification ''Bulk scheduling process has finished.'' success
                              (addLog [] info ''Scheduling complete.'' s)))\<lparr>isPaused := False\<rparr>"
  define s2 where "s2 = addLog [] info ''Using Manual Schedule for 2 files...''
     ((setIsScheduling True idle)
        \<lparr>isPaused := False, cancelled := False, schedulingLog := [],
         schedulingProgress := (0, 2)\<rparr>)"
  have a2: "awaits s2 = 0" "uploadCalls s2 = []" "\<not> cancelled s2" "\<not> isPaused s2"
    by (simp_all add: s2_def idle_def setIsScheduling_def)
  have "inSync ?e (awaits idle) s2"
    unfolding s2_def by (simp add: inSync_def setIsScheduling_def flagsAt_start)
  then have sync2: "inSync ?e 0 s2" by (simp add: idle_def)
  have len: "length (files twoFiles) = 2" by (simp add: example_files)
  have gen: "generateSchedule ?e pageA twoFiles
               ((setIsScheduling True idle)
                  \<lparr>isPaused := False, cancelled := False, schedulingLog := [],
                   schedulingProgress := (0, length (files twoFiles))\<rparr>) = (Fulfilled ?ts, s2)"
    by (simp add: generateSchedule_def s2_def showNat_small pauseThenStop_def quietEnv_def
        example_files eval_nat_numeral)
  have handle: "handleSchedulingProcess ?e ?pg twoFiles idle =
                  map_option ?fin (runLoop ?e ?pg twoFiles ?ts 0 s2)"
    using gen by (simp add: handleSchedulingProcess_def Let_def idle_def example_files
        split: option.splits)
  \<comment> \<open>the first file; the user pauses while it is in flight\<close>
  have pw0: "pauseWait ?e s2 = Some s2" using a2(4) by (subst pauseWait.simps) simp
  obtain s4 where at0: "attemptItem ?e ?pg twoFiles ?ts 0 s2 = (Fulfilled (), s4)"
    and aw4: "awaits s4 = awaits s2 + 3"
    using attemptItem_run [OF pauseThenStop_fetch] by blast
  have sync4: "inSync ?e 0 s4"
    using inSync_attemptItem [OF sync2, of ?pg twoFiles ?ts 0] at0 by simp
  have f4: "isPaused s4" "\<not> cancelled s4"
    using sync4 aw4 a2(1) pauseThenStop_flags(1) by (simp_all add: inSync_def)
  have c4: "uploadCalls s4 = [''a'']"
    using attemptItem_trace(1) [OF at0] a2(2) by (simp add: example_files)
  have loop0: "runLoop ?e ?pg twoFiles ?ts 0 s2 = runLoop ?e ?pg twoFiles ?ts 1 s4"
    using len a2(3) pw0 at0 by (subst runLoop.simps) simp
  \<comment> \<open>the pause loop before the second file; the user clicks stop during the first sleep\<close>
  let ?s4' = "suspend stopMessage ?e s4"
  have sync4': "inSync ?e 0 ?s4'" using sync4 by (rule inSync_suspend)
  have f4': "isPaused ?s4'" "cancelled ?s4'"
    using sync4' aw4 a2(1) pauseThenStop_flags(2) by (simp_all add: inSync_def)
  have "pauseWait ?e ?s4' = Some ?s4'" using f4' by (subst pauseWait.simps) simp
  then have pw1: "pauseWait ?e s4 = Some ?s4'" using f4 by (subst pauseWait.simps) simp
  \<comment> \<open>the second file is uploaded all the same\<close>
  obtain s6 where at1: "attemptItem ?e ?pg twoFiles ?ts 1 ?s4' = (Fulfilled (), s6)"
    using attemptItem_run [OF pauseThenStop_fetch] by blast
  have c6: "uploadCalls s6 = [''a'', ''b'']"
    using attemptItem_trace(1) [OF at1] c4 by (simp add: example_files)
  have "runLoop ?e ?pg twoFiles ?ts 2 s6 = Some s6"
    using len by (subst runLoop.simps) simp
  then have loop1: "runLoop ?e ?pg twoFiles ?ts 1 s4 = Some s6"
    using len f4(2) pw1 at1 by (subst runLoop.simps) (simp add: numeral_2_eq_2)
  have "handleSchedulingProcess ?e ?pg twoFiles idle = Some (?fin s6)"
    using handle loop0 loop1 by simp
  moreover have "uploadCalls (?fin s6) = [''a'', ''b'']"
    using c6 by (simp add: setIsScheduling_def addNotification_def)
  ultimately show ?thesis
    using handle loop0 c4 f4 pw1 f4'(2)
    by (intro exI [where x = s2] exI [where x = s4] exI [where x = ?s4']
        exI [where x = "?fin s6"]) simp
qed

text \<open>
  Claim C6, as amended. A click on start/stop while a run is in progress sets the
  cancellation flag, logs ``Stopping scheduling process...'' and returns: nothing else
  of the page changes, no suspension point is passed, no item is uploaded and no new
  run is started. At the top of an iteration the loop reads the flag: if it is set
  there, the loop logs ``Scheduling cancelled by user.'' and returns. So when the flag
  is set while item \<open>i\<close> is in flight (it was not yet set when the pause loop of the
  iteration ended), item \<open>i\<close> is carried to its outcome and is the last item handed to
  the upload function; the entry ``Scheduling cancelled by user.'' is then logged, on
  top of the outcome of item \<open>i\<close>, if another item follows and item \<open>i\<close> did not fail
  with an authentication error, and it is not logged if item \<open>i\<close> is the last item or
  fails with an authentication error, which ends the run by itself. In every run of the
  loop the items handed to the upload function are consecutive files from the start
  index, and every entry logged has no subject or the name of one of these files.
\<close>

theorem cancellation_takes_effect_between_items:
  "(isScheduling s \<longrightarrow>
      handleSchedulingProcess e activePage cfg s = Some (requestStop stopMessage s) \<and>
      requestStop stopMessage s =
        s\<lparr>cancelled := True,
           schedulingLog :=
             \<lparr>subject = [], status = info, message = ''Stopping scheduling process...''\<rparr>
               # schedulingLog s\<rparr> \<and>
      cancelled (requestStop stopMessage s) \<and> isScheduling (requestStop stopMessage s) \<and>
      awaits (requestStop stopMessage s) = awaits s \<and>
      uploadCalls (requestStop stopMessage s) = uploadCalls s \<and>
      schedulingProgress (requestStop stopMessage s) = schedulingProgress s \<and>
      schedulingLog (requestStop stopMessage s) =
        \<lparr>subject = [], status = info, message = ''Stopping scheduling process...''\<rparr>
          # schedulingLog s) \<and>
   (i < length (files cfg) \<and> cancelled s \<longrightarrow>
      runLoop e activePage cfg ts i s =
        Some (addNotification ''Scheduling process cancelled.'' info
                (addLog [] info ''Scheduling cancelled by user.'' s))) \<and>
   (i < length (files cfg) \<and> \<not> cancelled s \<and> pauseWait e s = Some s1 \<and> \<not> cancelled s1 \<and>
    attemptItem e activePage cfg ts i s1 = (r, s4) \<and> cancelled s4 \<longrightarrow>
      (\<exists>s'. runLoop e activePage cfg ts i s = Some s' \<and>
            uploadCalls s' = uploadCalls s @ [files cfg ! i] \<and>
            schedulingLog s' =
              (if i + 1 < length (files cfg) \<and> \<not> authFailure r
               then [\<lparr>subject = [], status = info, message = ''Scheduling cancelled by user.''\<rparr>]
               else [])
              @ (case r of
                   Rejected msg \<Rightarrow>
                     [\<lparr>subject = files cfg ! i, status = error, message = ''Failed: '' @ msg\<rparr>]
                 | Fulfilled u \<Rightarrow> [])
              @ schedulingLog s4)) \<and>
   (runLoop e activePage cfg ts j s0 = Some sN \<longrightarrow>
      (\<exists>k. uploadCalls sN = uploadCalls s0 @ take k (drop j (files cfg)) \<and>
           logAdds (\<lambda>x. subject x \<in> insert [] (set (take k (drop j (files cfg))))) s0 sN))"
proof (intro conjI impI)
  assume "isScheduling s"
  then show "handleSchedulingProcess e activePage cfg s = Some (requestStop stopMessage s)"
    by (simp add: handleSchedulingProcess_def)
  show "requestStop stopMessage s =
        s\<lparr>cancelled := True,
           schedulingLog :=
             \<lparr>subject = [], status = info, message = ''Stopping scheduling process...''\<rparr>
               # schedulingLog s\<rparr>"
    by (simp add: requestStop_def addLog_def stopMessage_def)
  show "cancelled (requestStop stopMessage s)" by (simp add: requestStop_def)
  show "isScheduling (requestStop stopMessage s)"
    using \<open>isScheduling s\<close> by (simp add: requestStop_def)
  show "awaits (requestStop stopMessage s) = awaits s" by (simp add: requestStop_def)
  show "uploadCalls (requestStop stopMessage s) = uploadCalls s" by (simp add: requestStop_def)
  show "schedulingProgress (requestStop stopMessage s) = schedulingProgress s"
    by (simp add: requestStop_def)
  show "schedulingLog (requestStop stopMessage s) =
        \<lparr>subject = [], status = info, message = ''Stopping scheduling process...''\<rparr>
          # schedulingLog s"
    by (simp add: requestStop_def stopMessage_def)
next
  assume "i < length (files cfg) \<and> cancelled s"
  then show "runLoop e activePage cfg ts i s =
        Some (addNotification ''Scheduling process cancelled.'' info
                (addLog [] info ''Scheduling cancelled by user.'' s))"
    by (simp add: runLoop_cancelled)
next
  assume a: "i < length (files cfg) \<and> \<not> cancelled s \<and> pauseWait e s = Some s1 \<and> \<not> cancelled s1 \<and>
    attemptItem e activePage cfg ts i s1 = (r, s4) \<and> cancelled s4"
  then have i: "i < length (files cfg)"
    and nc: "\<not> cancelled s" and pw: "pauseWait e s = Some s1"
    and at: "attemptItem e activePage cfg ts i s1 = (r, s4)" and c4: "cancelled s4"
    by simp_all
  let ?f = "files cfg ! i"
  let ?stop = "\<lambda>x. addNotification ''Scheduling process cancelled.'' info
                      (addLog [] info ''Scheduling cancelled by user.'' x)"
  have q: "quiet s s1" using pauseWait_quiet [OF pw] by simp
  have calls: "uploadCalls s4 = uploadCalls s @ [?f]"
    using attemptItem_trace(1) [OF at] quiet_fields(1) [OF q] by simp
  \<comment> \<open>the iteration that follows item \<open>i\<close>, entered with the flag set\<close>
  have after: "runLoop e activePage cfg ts (i + 1) x =
                 Some (if i + 1 < length (files cfg) then ?stop x else x)" if "cancelled x" for x
    using that by (simp add: runLoop_cancelled runLoop_ends)
  show "\<exists>s'. runLoop e activePage cfg ts i s = Some s' \<and>
            uploadCalls s' = uploadCalls s @ [?f] \<and>
            schedulingLog s' =
              (if i + 1 < length (files cfg) \<and> \<not> authFailure r
               then [\<lparr>subject = [], status = info, message = ''Scheduling cancelled by user.''\<rparr>]
               else [])
              @ (case r of
                   Rejected msg \<Rightarrow>
                     [\<lparr>subject = ?f, status = error, message = ''Failed: '' @ msg\<rparr>]
                 | Fulfilled u \<Rightarrow> [])
              @ schedulingLog s4"
  proof (cases r)
    case (Fulfilled u)
    let ?s' = "if i + 1 < length (files cfg) then ?stop s4 else s4"
    have "runLoop e activePage cfg ts i s = runLoop e activePage cfg ts (i + 1) s4"
      using i nc pw at Fulfilled by (subst runLoop.simps) simp
    then have "runLoop e activePage cfg ts i s = Some ?s'" using after [OF c4] by simp
    then show ?thesis using calls Fulfilled
      by (intro exI [where x = ?s']) (simp add: authFailure_def addNotification_def)
  next
    case (Rejected msg)
    let ?s5 = "addLog ?f error (''Failed: '' @ msg) s4"
    show ?thesis
    proof (cases "isAuthError msg")
      case False
      let ?s' = "if i + 1 < length (files cfg) then ?stop ?s5 else ?s5"
      have "runLoop e activePage cfg ts i s = runLoop e activePage cfg ts (i + 1) ?s5"
        using i nc pw at Rejected False by (subst runLoop.simps) (simp add: Let_def)
      moreover have "cancelled ?s5" using c4 by simp
      ultimately have "runLoop e activePage cfg ts i s = Some ?s'" using after [of ?s5] by simp
      then show ?thesis using calls Rejected False
        by (intro exI [where x = ?s']) (simp add: authFailure_def addNotification_def)
    next
      case True
      let ?s' = "handleLogout
                   (addNotification ''Facebook token expired during operation. Please log in again.''
                      error ?s5)"
      have "runLoop e activePage cfg ts i s = Some ?s'"
        using i nc pw at Rejected True by (subst runLoop.simps) (simp add: Let_def)
      then show ?thesis using calls Rejected True
        by (intro exI [where x = ?s'])
          (simp add: authFailure_def handleLogout_def addNotification_def)
    qed
  qed
next
  assume "runLoop e activePage cfg ts j s0 = Some sN"
  then show "\<exists>k. uploadCalls sN = uploadCalls s0 @ take k (drop j (files cfg)) \<and>
           logAdds (\<lambda>x. subject x \<in> insert [] (set (take k (drop j (files cfg))))) s0 sN"
    using runLoop_trace by blast
qed

lemma concat_no_actions: "concat (map (\<lambda>t. []) xs) = []"
  by (induction xs) simp_all

lemma flagsAt_no_actions:
  assumes "\<And>t. userActions e t = []"
  shows "flagsAt e t0 t = (False, False)"
proof -
  have "userActions e = (\<lambda>t. [])" by (rule ext) (rule assms)
  then show ?thesis by (simp add: flagsAt_def concat_no_actions)
qed

lemma pausesEnd_no_actions:
  assumes "\<And>t. userActions e t = []"
  shows "pausesEnd e t0"
  unfolding pausesEnd_def by (auto simp add: flagsAt_no_actions [OF assms])

lemma idle_fields:
  "awaits idle = 0" "uploadCalls idle = []" "logouts idle = 0" "\<not> cancelled idle"
  "\<not> isPaused idle" "\<not> isScheduling idle" "schedulingLog idle = []"
  by (simp_all add: idle_def)

lemma idle_wait: "pauseWait e idle = Some idle"
  by (subst pauseWait.simps) (simp add: idle_fields)

lemma expiredSession_item:
  "fst (attemptItem expiredSession (Some pageA) twoFiles ts 0 idle) =
     Rejected ''Media upload failed: Error validating access token: Session has expired''"
  by (simp add: attemptItem_def uploadPost_def uploadMedia_def Let_def expiredSession_def
      quietEnv_def)

lemma expiredSession_isAuthError:
  "isAuthError ''Media upload failed: Error validating access token: Session has expired''"
  by (simp add: isAuthError_def toLowerCase_def)

text \<open>
  The first of two files is refused with an expired-session error: one call of
  \<^verbatim>\<open>handleLogout\<close>, one file handed to the upload function.
\<close>

theorem auth_failure_aborts_run_witness:
  "map_option (\<lambda>s. (logouts s, uploadCalls s))
     (runLoop expiredSession (Some pageA) twoFiles [1728032400000, 1728036000000] 0 idle) =
   Some (1, [''a''])"
proof -
  let ?ts = "[1728032400000, 1728036000000] :: date list"
  obtain s4 where at: "attemptItem expiredSession (Some pageA) twoFiles ?ts 0 idle =
      (Rejected ''Media upload failed: Error validating access token: Session has expired'', s4)"
    using expiredSession_item [of ?ts]
    by (cases "attemptItem expiredSession (Some pageA) twoFiles ?ts 0 idle") simp
  have i: "0 < length (files twoFiles)" by (simp add: example_files)
  note th = auth_failure_aborts_run [OF i idle_fields(4) idle_wait at expiredSession_isAuthError refl]
  have a: "runLoop expiredSession (Some pageA) twoFiles ?ts 0 idle =
      Some (handleLogout
        (addNotification ''Facebook token expired during operation. Please log in again.'' error
          (addLog (files twoFiles ! 0) error
            (''Failed: '' @ ''Media upload failed: Error validating access token: Session has expired'')
            s4)))"
    using th by (rule conjunct1)
  have b: "uploadCalls (handleLogout
        (addNotification ''Facebook token expired during operation. Please log in again.'' error
          (addLog (files twoFiles ! 0) error
            (''Failed: '' @ ''Media upload failed: Error validating access token: Session has expired'')
            s4))) = [''a'']"
    using th [THEN conjunct2, THEN conjunct2, THEN conjunct1]
    by (simp add: idle_fields example_files)
  have c: "logouts (handleLogout
        (addNotification ''Facebook token expired during operation. Please log in again.'' error
          (addLog (files twoFiles ! 0) error
            (''Failed: '' @ ''Media upload failed: Error validating access token: Session has expired'')
            s4))) = 1"
    using th [THEN conjunct2, THEN conjunct2, THEN conjunct2, THEN conjunct1]
    by (simp add: idle_fields)
  show ?thesis unfolding a using b c by simp
qed

lemma brokenUpload_item:
  assumes "awaits s = 0"
  shows "fst (attemptItem brokenUpload (Some pageA) twoFiles ts 0 s) =
           Rejected ''Media upload failed: (#324) Requires upload file''"
  using assms
  by (simp add: attemptItem_def uploadPost_def uploadMedia_def Let_def brokenUpload_def
      quietEnv_def)

lemma brokenUpload_not_isAuthError:
  "\<not> isAuthError ''Media upload failed: (#324) Requires upload file''"
  by (simp add: isAuthError_def toLowerCase_def)

lemma brokenUpload_quiet: "userActions brokenUpload t = []"
  by (simp add: brokenUpload_def quietEnv_def)

lemma brokenUpload_cancelled:
  "cancelled (snd (attemptItem brokenUpload activePage cfg ts i s)) = cancelled s"
  by (rule attemptItem_preserves [where P = "\<lambda>x. cancelled x = cancelled s"])
    (simp_all add: suspend_def brokenUpload_quiet)

text \<open>
  A run of two files in which the upload of the first is refused with an error that has
  nothing to do with authentication: the second file is uploaded and the run completes.
\<close>

theorem item_failure_continues_witness:
  "\<exists>sN. handleSchedulingProcess brokenUpload (Some pageA) twoFiles idle = Some sN \<and>
      \<not> isScheduling sN \<and> uploadCalls sN = [''a'', ''b''] \<and>
      hd (schedulingLog sN) = \<lparr>subject = [], status = info, message = ''Scheduling complete.''\<rparr> \<and>
      \<lparr>subject = ''a'', status = error,
       message = ''Failed: Media upload failed: (#324) Requires upload file''\<rparr>
        \<in> set (schedulingLog sN)"
proof -
  let ?e = brokenUpload
  let ?ts = "manualSchedule 0 twoFiles 2"
  define s2 where "s2 = addLog [] info ''Using Manual Schedule for 2 files...''
     ((setIsScheduling True idle)
        \<lparr>isPaused := False, cancelled := False, schedulingLog := [],
         schedulingProgress := (0, 2)\<rparr>)"
  have a2: "awaits s2 = 0" "uploadCalls s2 = []" "\<not> cancelled s2" "\<not> isPaused s2"
    by (simp_all add: s2_def idle_def setIsScheduling_def)
  have gen: "generateSchedule ?e pageA twoFiles
               ((setIsScheduling True idle)
                  \<lparr>isPaused := False, cancelled := False, schedulingLog := [],
                   schedulingProgress := (0, length (files twoFiles))\<rparr>) = (Fulfilled ?ts, s2)"
    by (simp add: generateSchedule_def s2_def showNat_small brokenUpload_def quietEnv_def
        example_files eval_nat_numeral)
  have reach: "afterItems ?e (Some pageA) twoFiles ?ts 0 s2 0 = Some s2" by simp
  have pw: "pauseWait ?e s2 = Some s2" using a2(4) by (subst pauseWait.simps) simp
  let ?s4 = "snd (attemptItem ?e (Some pageA) twoFiles ?ts 0 s2)"
  have at: "attemptItem ?e (Some pageA) twoFiles ?ts 0 s2 =
      (Rejected ''Media upload failed: (#324) Requires upload file'', ?s4)"
    using brokenUpload_item [OF a2(1), of ?ts]
    by (cases "attemptItem ?e (Some pageA) twoFiles ?ts 0 s2") simp
  have c4: "\<not> cancelled ?s4" using a2(3) by (simp add: brokenUpload_cancelled)
  have i: "0 < length (files twoFiles)" and ne: "files twoFiles \<noteq> []"
    and more: "0 + 1 < length (files twoFiles)"
    by (simp_all add: example_files)
  have live: "pausesEnd ?e (awaits idle)" using brokenUpload_quiet by (rule pausesEnd_no_actions)
  obtain s3 :: run_state and sN l k where
    log3: "schedulingLog s3 =
             l @ \<lparr>subject = files twoFiles ! 0, status = error,
                   message = ''Failed: '' @ ''Media upload failed: (#324) Requires upload file''\<rparr>
                   # schedulingLog ?s4"
    and calls3: "uploadCalls s3 = uploadCalls s2 @ files twoFiles ! 0 # take k (drop (0 + 1) (files twoFiles))"
    and k: "if 0 + 1 < length (files twoFiles) \<and> \<not> cancelled ?s4 then 0 < k else k = 0"
    and handle: "handleSchedulingProcess ?e (Some pageA) twoFiles idle = Some sN"
    and fin: "\<not> isScheduling sN"
      "schedulingLog sN =
         \<lparr>subject = [], status = info, message = ''Scheduling complete.''\<rparr> # schedulingLog s3"
      "uploadCalls sN = uploadCalls s3"
    using item_failure_continues [OF idle_fields(6) ne gen reach i a2(3) pw at
        brokenUpload_not_isAuthError live]
    by blast
  have "0 < k" using k more c4 by simp
  then have "take k [''b''] = [''b'']" by (cases k) simp_all
  then have "uploadCalls sN = [''a'', ''b'']"
    using calls3 fin(3) a2(2) by (simp add: example_files)
  then show ?thesis
    using handle fin(1,2) log3 by (intro exI [where x = sN]) (simp add: example_files)
qed

lemma failingGeneration_fields:
  "genError failingGeneration = Some ''schedulerSettings.startTime.split is not a function''"
  by (simp add: failingGeneration_def quietEnv_def)

text \<open>
  Two files and a start time that is not a string: the handler returns with the two
  entries in the log, no upload, and the run state not running.
\<close>

theorem generation_failure_aborts_witness:
  "\<exists>sN. handleSchedulingProcess failingGeneration (Some pageA) twoFiles idle = Some sN \<and>
     map message (schedulingLog sN) =
       [''Schedule generation failed: schedulerSettings.startTime.split is not a function'',
        ''Using Manual Schedule for 2 files...''] \<and>
     uploadCalls sN = [] \<and> logouts sN = 0 \<and> awaits sN = 0 \<and> \<not> isScheduling sN"
proof -
  let ?s1 = "addLog [] info ''Using Manual Schedule for 2 files...''
     ((setIsScheduling True idle)
        \<lparr>isPaused := False, cancelled := False, schedulingLog := [],
         schedulingProgress := (0, 2)\<rparr>)"
  have ne: "files twoFiles \<noteq> []" by (simp add: example_files)
  have gen: "generateSchedule failingGeneration pageA twoFiles
               ((setIsScheduling True idle)
                  \<lparr>isPaused := False, cancelled := False, schedulingLog := [],
                   schedulingProgress := (0, length (files twoFiles))\<rparr>) =
             (Rejected ''schedulerSettings.startTime.split is not a function'', ?s1)"
    by (simp add: generateSchedule_def showNat_small failingGeneration_fields example_files)
  obtain sN where "handleSchedulingProcess failingGeneration (Some pageA) twoFiles idle = Some sN"
    and "sN = idle\<lparr>isPaused := False, cancelled := False,
                   schedulingLog :=
                     [\<lparr>subject = [], status = error,
                       message = ''Schedule generation failed: ''
                                   @ ''schedulerSettings.startTime.split is not a function''\<rparr>,
                      \<lparr>subject = [], status = info,
                       message = ''Using Manual Schedule for '' @ showNat (length (files twoFiles))
                                   @ '' files...''\<rparr>],
                   schedulingProgress := (0, length (files twoFiles)),
                   notifications :=
                     (''Could not generate schedule: ''
                        @ ''schedulerSettings.startTime.split is not a function'', error)
                       # notifications idle\<rparr>"
    using generation_failure_aborts [OF idle_fields(6) ne gen] by blast
  then show ?thesis
    by (intro exI [where x = sN]) (simp add: idle_def example_files showNat_small)
qed

lemma stopDuringUpload_fetch:
  "fetchJson stopDuringUpload t = Fulfilled \<lparr>error_message = None, response_id = Some ''1''\<rparr>"
  by (simp add: stopDuringUpload_def quietEnv_def)

lemma stopDuringUpload_flags:
  "flagsAt stopDuringUpload 0 0 = (False, False)" "flagsAt stopDuringUpload 0 3 = (False, True)"
  by (simp_all add: eval_nat_numeral flagsAt_Suc flagsAt_start stopDuringUpload_def quietEnv_def)

lemma oneFile_schedule: "manualSchedule 0 oneFile (Suc 0) = [1728032400000]"
  by (simp add: manualSchedule_def oneFile_def fiveFiles_def setHours_def newDate_def localDay_def
      localMs_def msPerDay_def msPerHour_def msPerMinute_def)

lemma oneFile_item:
  assumes "awaits s = 0"
  shows "fst (attemptItem stopDuringUpload (Some pageA) oneFile [1728032400000] 0 s) = Fulfilled ()"
    and "cancelled (snd (attemptItem stopDuringUpload (Some pageA) oneFile [1728032400000] 0 s))"
    and "map message
           (schedulingLog (snd (attemptItem stopDuringUpload (Some pageA) oneFile [1728032400000] 0 s))) =
           [''Scheduled successfully! Post ID: 1'', ''Scheduling post for slot'',
            ''Media uploaded successfully. ID: 1. Now creating post...'',
            ''Uploading media file to Facebook...'',
            ''Caption ready: '' @ [quoteChar] @ ''caption...'' @ [quoteChar],
            ''Stopping scheduling process...'', ''Generating AI caption...'']
           @ map message (schedulingLog s)"
  using assms
  by (simp_all add: attemptItem_def uploadPost_def uploadMedia_def createFeedPost_def Let_def
      stopDuringUpload_def quietEnv_def oneFile_def fiveFiles_def suspend_def requestStop_def
      stopMessage_def showId_def)

text \<open>
  Claim C6 as stated says that the log of a cancelled run has an entry ``cancelled by
  user''. With one file and a click on stop while it is in flight, the flag is set and
  the run ends without that entry.
\<close>

theorem cancel_during_last_item:
  "\<exists>sN. handleSchedulingProcess stopDuringUpload (Some pageA) oneFile idle = Some sN \<and>
         cancelled sN \<and>
         map message (schedulingLog sN) =
           [''Scheduling complete.'',
            ''Scheduled successfully! Post ID: 1'', ''Scheduling post for slot'',
            ''Media uploaded successfully. ID: 1. Now creating post...'',
            ''Uploading media file to Facebook...'',
            ''Caption ready: '' @ [quoteChar] @ ''caption...'' @ [quoteChar],
            ''Stopping scheduling process...'', ''Generating AI caption...'',
            ''Using Manual Schedule for 1 files...''] \<and>
         ''Scheduling cancelled by user.'' \<notin> set (map message (schedulingLog sN))"
proof -
  let ?e = stopDuringUpload
  let ?ts = "[1728032400000] :: date list"
  define s2 where "s2 = addLog [] info ''Using Manual Schedule for 1 files...''
     ((setIsScheduling True idle)
        \<lparr>isPaused := False, cancelled := False, schedulingLog := [],
         schedulingProgress := (0, Suc 0)\<rparr>)"
  have s2: "awaits s2 = 0" "\<not> cancelled s2" "\<not> isPaused s2"
    "map message (schedulingLog s2) = [''Using Manual Schedule for 1 files...'']"
    by (simp_all add: s2_def idle_def setIsScheduling_def)
  have gen: "generateSchedule ?e pageA oneFile
               ((setIsScheduling True idle)
                  \<lparr>isPaused := False, cancelled := False, schedulingLog := [],
                   schedulingProgress := (0, length (files oneFile))\<rparr>) = (Fulfilled ?ts, s2)"
    by (simp add: generateSchedule_def s2_def oneFile_schedule showNat_small stopDuringUpload_def
        quietEnv_def example_files)
  obtain s4 where at: "attemptItem ?e (Some pageA) oneFile ?ts 0 s2 = (Fulfilled (), s4)"
    using oneFile_item(1) [OF s2(1)]
    by (cases "attemptItem ?e (Some pageA) oneFile ?ts 0 s2") simp
  have s4: "cancelled s4"
    "map message (schedulingLog s4) =
           [''Scheduled successfully! Post ID: 1'', ''Scheduling post for slot'',
            ''Media uploaded successfully. ID: 1. Now creating post...'',
            ''Uploading media file to Facebook...'',
            ''Caption ready: '' @ [quoteChar] @ ''caption...'' @ [quoteChar],
            ''Stopping scheduling process...'', ''Generating AI caption...'',
            ''Using Manual Schedule for 1 files...'']"
    using oneFile_item(2,3) [OF s2(1)] s2 at by simp_all
  have pw: "pauseWait ?e s2 = Some s2" using s2(3) by (subst pauseWait.simps) simp
  have len: "length (files oneFile) = Suc 0" by (simp add: example_files)
  have "runLoop ?e (Some pageA) oneFile ?ts (Suc 0) s4 = Some s4"
    using len by (subst runLoop.simps) simp
  then have loop: "runLoop ?e (Some pageA) oneFile ?ts 0 s2 = Some s4"
    using len s2(2) pw at by (subst runLoop.simps) simp
  let ?sN = "(setIsScheduling False
                (addNotification ''Bulk scheduling process has finished.'' success
                   (addLog [] info ''Scheduling complete.'' s4)))\<lparr>isPaused := False\<rparr>"
  have "handleSchedulingProcess ?e (Some pageA) oneFile idle = Some ?sN"
    using gen loop len by (simp add: handleSchedulingProcess_def Let_def idle_fields example_files)
  moreover have "cancelled ?sN" using s4(1) by (simp add: setIsScheduling_def addNotification_def)
  moreover have "map message (schedulingLog ?sN) =
           [''Scheduling complete.'',
            ''Scheduled successfully! Post ID: 1'', ''Scheduling post for slot'',
            ''Media uploaded successfully. ID: 1. Now creating post...'',
            ''Uploading media file to Facebook...'',
            ''Caption ready: '' @ [quoteChar] @ ''caption...'' @ [quoteChar],
            ''Stopping scheduling process...'', ''Generating AI caption...'',
            ''Using Manual Schedule for 1 files...'']"
    using s4(2) by (simp add: setIsScheduling_def addNotification_def)
  ultimately show ?thesis by (intro exI [where x = ?sN]) simp
qed

text \<open>
  A click while a run is in progress, and a run of two files with a click during the
  flight of the first: the second file is not uploaded and the loop ends with the entry
  ``Scheduling cancelled by user.''.
\<close>

theorem cancellation_takes_effect_between_items_witness:
  "handleSchedulingProcess stopDuringUpload (Some pageA) twoFiles running =
     Some (requestStop stopMessage running) \<and>
   (\<exists>s'. runLoop stopDuringUpload (Some pageA) twoFiles [1728032400000, 1728036000000] 0 idle =
            Some s' \<and>
          uploadCalls s' = [''a''] \<and>
          hd (schedulingLog s') =
            \<lparr>subject = [], status = info, message = ''Scheduling cancelled by user.''\<rparr>)"
proof -
  let ?e = stopDuringUpload
  let ?ts = "[1728032400000, 1728036000000] :: date list"
  have sync: "inSync ?e 0 idle" by (simp add: inSync_def idle_fields flagsAt_start)
  obtain s4 where at: "attemptItem ?e (Some pageA) twoFiles ?ts 0 idle = (Fulfilled (), s4)"
    and aw4: "awaits s4 = awaits idle + 3"
    using attemptItem_run [OF stopDuringUpload_fetch] by blast
  have "inSync ?e 0 s4"
    using inSync_attemptItem [OF sync, of "Some pageA" twoFiles ?ts 0] at by simp
  then have c4: "cancelled s4"
    using aw4 stopDuringUpload_flags(2) by (simp add: inSync_def idle_fields)
  have run: "isScheduling running" by (simp add: running_def)
  have a: "handleSchedulingProcess ?e (Some pageA) twoFiles running =
     Some (requestStop stopMessage running)"
    using cancellation_takes_effect_between_items
      [where s = running and e = ?e and activePage = "Some pageA" and cfg = twoFiles,
       THEN conjunct1, rule_format, OF run]
    by (rule conjunct1)
  have pre: "0 < length (files twoFiles) \<and> \<not> cancelled idle \<and> pauseWait ?e idle = Some idle \<and>
    \<not> cancelled idle \<and> attemptItem ?e (Some pageA) twoFiles ?ts 0 idle = (Fulfilled (), s4) \<and>
    cancelled s4"
    using at c4 by (simp add: example_files idle_fields idle_wait)
  obtain s' where b: "runLoop ?e (Some pageA) twoFiles ?ts 0 idle = Some s'"
    "uploadCalls s' = uploadCalls idle @ [files twoFiles ! 0]"
    "schedulingLog s' =
       (if 0 + 1 < length (files twoFiles) \<and> \<not> authFailure (Fulfilled () :: unit promise)
        then [\<lparr>subject = [], status = info, message = ''Scheduling cancelled by user.''\<rparr>]
        else [])
       @ (case (Fulfilled () :: unit promise) of
            Rejected msg \<Rightarrow>
              [\<lparr>subject = files twoFiles ! 0, status = error, message = ''Failed: '' @ msg\<rparr>]
          | Fulfilled u \<Rightarrow> [])
       @ schedulingLog s4"
    using cancellation_takes_effect_between_items
      [where s = idle and e = ?e and activePage = "Some pageA" and cfg = twoFiles and i = 0
         and ts = ?ts and ?s1.0 = idle and r = "Fulfilled ()" and ?s4.0 = s4,
       THEN conjunct2, THEN conjunct2, THEN conjunct1, rule_format, OF pre]
    by blast
  show ?thesis
    using a b by (intro conjI exI [where x = s']) (simp_all add: idle_fields example_files authFailure_def)
qed

lemma idleCross_fields:
  "awaits idleCross = 0" "uploadCalls idleCross = []" "\<not> cancelled idleCross"
  "\<not> isPaused idleCross" "crossPostHistory idleCross = []" "storedHistory idleCross = None"
  "schedulingLog idleCross = []" "logouts idleCross = 0"
  by (simp_all add: idleCross_def)

text \<open>One post whose key is in the set the handler consults: no upload, one entry of status info.\<close>

lemma crossLoop_skips_recorded_example:
  "map_option (\<lambda>s. (uploadCalls s, map status (schedulingLog s), crossPostHistory s))
     (crossLoop quietEnv pageB crossSettings [''p1|B''] [post1] 0 1728032400000 idleCross) =
   Some ([], [info], [])"
proof -
  let ?s2 = "addLog (post_id ([post1] ! 0)) info
                 ''Skipped: This post has already been cross-posted to the destination page.''
                 (idleCross\<lparr>schedulingProgress := (0 + 1, length [post1])\<rparr>)"
  have pw: "crossPauseWait quietEnv idleCross = Some idleCross"
    by (subst crossPauseWait.simps) (simp add: idleCross_fields)
  have key: "historyKey ([post1] ! 0) pageB \<in> set [''p1|B'']"
    by (simp add: historyKey_def post1_def pageB_def)
  have i: "0 < length [post1]" by simp
  note th = crossLoop_skips_recorded [OF i idleCross_fields(3) pw key refl,
      of crossSettings 1728032400000]
  have "crossLoop quietEnv pageB crossSettings [''p1|B''] [post1] (0 + 1) 1728032400000 ?s2 = Some ?s2"
    by (subst crossLoop.simps) simp
  then have "crossLoop quietEnv pageB crossSettings [''p1|B''] [post1] 0 1728032400000 idleCross =
      Some ?s2"
    using th [THEN conjunct1] by simp
  then show ?thesis by (simp add: idleCross_fields)
qed

lemma quietEnv_upload:
  fixes s :: cross_state
  shows "fst (uploadCrossPost quietEnv (Some pageB) crossSettings post1 (Some t) s) = Fulfilled ()"
    and "uploadCalls (snd (uploadCrossPost quietEnv (Some pageB) crossSettings post1 (Some t) s)) =
           uploadCalls s @ [''p1'']"
    and "crossPostHistory (snd (uploadCrossPost quietEnv (Some pageB) crossSettings post1 (Some t) s)) =
           setAdd ''p1|B'' (crossPostHistory s)"
    and "storedHistory (snd (uploadCrossPost quietEnv (Some pageB) crossSettings post1 (Some t) s)) =
           Some (setAdd ''p1|B'' (crossPostHistory s))"
    and "cancelled (snd (uploadCrossPost quietEnv (Some pageB) crossSettings post1 (Some t) s)) =
           cancelled s"
    and "isPaused (snd (uploadCrossPost quietEnv (Some pageB) crossSettings post1 (Some t) s)) =
           isPaused s"
    and "map message
           (schedulingLog (snd (uploadCrossPost quietEnv (Some pageB) crossSettings post1 (Some t) s))) =
           [''Scheduled successfully! ID: 1'', ''Scheduling for slot'',
            ''Media uploaded (ID: 1). Creating post...'', ''Uploading new styled image...'',
            ''Caption ready: '' @ [quoteChar] @ ''caption...'' @ [quoteChar],
            ''Enhancing post...'']
           @ map message (schedulingLog s)"
  by (simp_all add: uploadCrossPost_def Let_def quietEnv_def suspend_def post1_def pageB_def
      historyKey_def showId_def)

lemma crossSettings_next: "advanceClock 0 crossSettings 1728032400000 = 1728036000000"
  by (simp add: crossSettings_def advanceClock_def setHours_def setMinutes_def
      getHours_def getMinutes_def localDay_def localMs_def addOneDay_def
      msPerDay_def msPerHour_def msPerMinute_def)

lemma crossSettings_start:
  "setHours 0 (newDate (startDate crossSettings)) 9 0 0 0 = 1728032400000"
  "startTime crossSettings = (9, 0)"
  by (simp_all add: crossSettings_def setHours_def newDate_def localDay_def localMs_def
      msPerDay_def msPerHour_def msPerMinute_def)

text \<open>
  Claim C7. The list of source posts holds the same post twice, both copies are
  selected, the history is empty, every request succeeds and the user does nothing.
  The first copy is cross-posted and its key is recorded, in the history of the page and
  in \<^verbatim>\<open>localStorage\<close>. When the loop reaches the second copy, not cancelled and not
  paused, the key is in both, but the loop looks it up in the set with which the run was
  started, which is still empty: the second copy is handed to the upload function too,
  and the log of the run has no entry of a skipped post.
\<close>

theorem duplicate_not_skipped:
  "\<exists>s1 s t sN.
     handleCrossPostProcess quietEnv [post1, post1] [''p1''] (Some pageB) (Some pageA)
         crossSettings idleCross =
       map_option (\<lambda>x. setIsScheduling False
                          (addNotification ''Cross-posting process has finished.'' success x))
         (crossLoop quietEnv pageB crossSettings (crossPostHistory idleCross) [post1, post1] 0
            1728032400000 s1) \<and>
     crossLoop quietEnv pageB crossSettings (crossPostHistory idleCross) [post1, post1] 0
         1728032400000 s1 =
       crossLoop quietEnv pageB crossSettings (crossPostHistory idleCross) [post1, post1] 1 t s \<and>
     \<not> cancelled s \<and> crossPauseWait quietEnv s = Some s \<and> uploadCalls s = [''p1''] \<and>
     historyKey ([post1, post1] ! 1) pageB \<in> set (crossPostHistory s) \<and>
     storedHistory s = Some [historyKey ([post1, post1] ! 1) pageB] \<and>
     handleCrossPostProcess quietEnv [post1, post1] [''p1''] (Some pageB) (Some pageA)
         crossSettings idleCross = Some sN \<and>
     uploadCalls sN = [''p1'', ''p1''] \<and>
     map message (schedulingLog sN) =
       [''Scheduled successfully! ID: 1'', ''Scheduling for slot'',
        ''Media uploaded (ID: 1). Creating post...'', ''Uploading new styled image...'',
        ''Caption ready: '' @ [quoteChar] @ ''caption...'' @ [quoteChar], ''Enhancing post...'',
        ''Scheduled successfully! ID: 1'', ''Scheduling for slot'',
        ''Media uploaded (ID: 1). Creating post...'', ''Uploading new styled image...'',
        ''Caption ready: '' @ [quoteChar] @ ''caption...'' @ [quoteChar], ''Enhancing post...'']"
proof -
  let ?e = quietEnv
  let ?posts = "[post1, post1]"
  let ?fin = "\<lambda>x. setIsScheduling False
                     (addNotification ''Cross-posting process has finished.'' success x)"
  let ?loop = "crossLoop ?e pageB crossSettings (crossPostHistory idleCross) ?posts"
  define s1 where "s1 = (setIsScheduling True idleCross)
                          \<lparr>isPaused := False, cancelled := False, schedulingLog := [],
                           schedulingProgress := (0, length ?posts)\<rparr>"
  have f1: "\<not> cancelled s1" "\<not> isPaused s1" "uploadCalls s1 = []" "schedulingLog s1 = []"
    "crossPostHistory s1 = []"
    by (simp_all add: s1_def idleCross_def setIsScheduling_def)
  have hist: "crossPostHistory idleCross = []" by (simp add: idleCross_fields)
  have key: "historyKey (?posts ! i) pageB = ''p1|B''" if "i < 2" for i
    using that by (cases i) (simp_all add: historyKey_def post1_def pageB_def)
  have posts: "filter (\<lambda>p. post_id p \<in> set [''p1'']) ?posts = ?posts"
    by (simp add: post1_def)
  have pages: "page_id pageB \<noteq> page_id pageA" by (simp add: pageA_def pageB_def)
  have clock: "clock ?e k = 0" for k by (simp add: quietEnv_def)
  have tz: "timezone ?e = 0" by (simp add: quietEnv_def)
  have idle: "\<not> isScheduling idleCross" by (simp add: idleCross_def)
  have handle: "handleCrossPostProcess ?e ?posts [''p1''] (Some pageB) (Some pageA)
                  crossSettings idleCross = map_option ?fin (?loop 0 1728032400000 s1)"
    unfolding handleCrossPostProcess_def posts
    using pages crossSettings_start tz idle
    by (simp add: Let_def hist s1_def split: option.splits)
  \<comment> \<open>the first copy\<close>
  let ?s2 = "s1\<lparr>schedulingProgress := (0 + 1, length ?posts)\<rparr>"
  let ?up1 = "uploadCrossPost ?e (Some pageB) crossSettings post1 (Some 1728032400000) ?s2"
  define s where "s = snd ?up1"
  have up1: "?up1 = (Fulfilled (), s)"
    using quietEnv_upload(1) [of 1728032400000 ?s2] by (cases ?up1) (simp add: s_def)
  have fs: "\<not> cancelled s" "\<not> isPaused s" "uploadCalls s = [''p1'']"
    "crossPostHistory s = [''p1|B'']" "storedHistory s = Some [''p1|B'']"
    "map message (schedulingLog s) =
       [''Scheduled successfully! ID: 1'', ''Scheduling for slot'',
        ''Media uploaded (ID: 1). Creating post...'', ''Uploading new styled image...'',
        ''Caption ready: '' @ [quoteChar] @ ''caption...'' @ [quoteChar], ''Enhancing post...'']"
    unfolding s_def using f1 by (simp_all add: quietEnv_upload setAdd_def)
  have pw1: "crossPauseWait ?e s1 = Some s1" using f1(2) by (subst crossPauseWait.simps) simp
  have loop0: "?loop 0 1728032400000 s1 = ?loop 1 1728036000000 s"
    using f1(1) pw1 up1 key [of 0]
    by (subst crossLoop.simps) (simp add: Let_def hist clock tz crossSettings_next)
  \<comment> \<open>the second copy\<close>
  have pw: "crossPauseWait ?e s = Some s" using fs(2) by (subst crossPauseWait.simps) simp
  let ?s2' = "s\<lparr>schedulingProgress := (1 + 1, length ?posts)\<rparr>"
  let ?up2 = "uploadCrossPost ?e (Some pageB) crossSettings post1 (Some 1728036000000) ?s2'"
  define s3 where "s3 = snd ?up2"
  have up2: "?up2 = (Fulfilled (), s3)"
    using quietEnv_upload(1) [of 1728036000000 ?s2'] by (cases ?up2) (simp add: s3_def)
  have f3: "uploadCalls s3 = [''p1'', ''p1'']"
    "map message (schedulingLog s3) =
       [''Scheduled successfully! ID: 1'', ''Scheduling for slot'',
        ''Media uploaded (ID: 1). Creating post...'', ''Uploading new styled image...'',
        ''Caption ready: '' @ [quoteChar] @ ''caption...'' @ [quoteChar], ''Enhancing post...'',
        ''Scheduled successfully! ID: 1'', ''Scheduling for slot'',
        ''Media uploaded (ID: 1). Creating post...'', ''Uploading new styled image...'',
        ''Caption ready: '' @ [quoteChar] @ ''caption...'' @ [quoteChar], ''Enhancing post...'']"
    unfolding s3_def using fs by (simp_all add: quietEnv_upload)
  have "?loop (Suc (Suc 0)) t s3 = Some s3" for t by (subst crossLoop.simps) simp
  then have loop1: "?loop 1 1728036000000 s = Some s3"
    using fs(1) pw up2 key [of 1]
    by (subst crossLoop.simps) (simp add: Let_def hist clock tz)
  have final: "handleCrossPostProcess ?e ?posts [''p1''] (Some pageB) (Some pageA)
                 crossSettings idleCross = Some (?fin s3)"
    using handle loop0 loop1 by simp
  have "uploadCalls (?fin s3) = [''p1'', ''p1'']"
    "map message (schedulingLog (?fin s3)) = map message (schedulingLog s3)"
    using f3(1) by (simp_all add: setIsScheduling_def addNotification_def)
  then show ?thesis
    using handle loop0 fs pw final f3(2) key [of 1]
    by (intro exI [where x = s1] exI [where x = s] exI [where x = 1728036000000]
        exI [where x = "?fin s3"]) simp
qed


end
